theory Spec2Isabelle
  imports Complex_Main "HOL-Library.Multiset"
begin

section \<open>The non-parametric field-wide one-sample t test of modelA.py\<close>

text \<open>
  This theory embeds \<^verbatim>\<open>cluster_integral\<close> and \<^verbatim>\<open>ttest_nonparametric\<close> of
  \<^verbatim>\<open>src/modelA/modelA.py\<close>, together with the NumPy, SciPy and itertools routines they
  call (\<^verbatim>\<open>itertools.product\<close>, \<^verbatim>\<open>ndarray.mean\<close>, \<^verbatim>\<open>ndarray.std\<close>, \<^verbatim>\<open>ndarray.max\<close>,
  \<^verbatim>\<open>np.percentile\<close>, \<^verbatim>\<open>np.trapz\<close>, \<^verbatim>\<open>ndimage.label\<close>, broadcasting subtraction).

  Conventions of the embedding:
  \<^item> float64 values are idealised as \<^typ>\<open>real\<close>: rounding is not modelled.
  \<^item> A (101,N) array \<^verbatim>\<open>x\<close> is the list of its rows: one row per domain position, each
    row holding the N observations at that position. NumPy arrays are rectangular, so all
    rows of \<^verbatim>\<open>x\<close> have the same length.
  \<^item> A Python exception is the outcome \<open>Raises\<close>.
  \<^item> A float division by zero (a zero standard deviation, or fewer than two
    observations with \<^verbatim>\<open>ddof=1\<close>) does not raise in NumPy: it yields nan or inf with a
    warning and the run goes on. Real numbers have no such values, so these runs get the
    outcome \<open>NonFinite\<close> and are not followed further.
\<close>

datatype py_error = ValueError

datatype 'a outcome = Raises py_error | NonFinite | Returns 'a

definition bind_outcome :: "'a outcome \<Rightarrow> ('a \<Rightarrow> 'b outcome) \<Rightarrow> 'b outcome" where
  "bind_outcome r f = (case r of Raises e \<Rightarrow> Raises e | NonFinite \<Rightarrow> NonFinite | Returns v \<Rightarrow> f v)"

text \<open>A \<^verbatim>\<open>for\<close> loop appending one result per item; the first failure ends the loop.\<close>

fun for_each :: "('a \<Rightarrow> 'b outcome) \<Rightarrow> 'a list \<Rightarrow> 'b list outcome" where
  "for_each f [] = Returns []"
| "for_each f (a # as) =
     bind_outcome (f a) (\<lambda>b. bind_outcome (for_each f as) (\<lambda>bs. Returns (b # bs)))"

subsection \<open>Array helpers\<close>

definition ncols :: "real list list \<Rightarrow> nat" where
  "ncols x = (case x of [] \<Rightarrow> 0 | r # _ \<Rightarrow> length r)"

text \<open>\<^verbatim>\<open>x.T\<close> for a two-dimensional array.\<close>

definition np_transpose :: "real list list \<Rightarrow> real list list" where
  "np_transpose x = map (\<lambda>k. map (\<lambda>r. r ! k) x) [0..<ncols x]"

text \<open>
  \<^verbatim>\<open>a - mu\<close> for \<^verbatim>\<open>a\<close> of shape (n, m) and \<^verbatim>\<open>mu\<close> of shape (m',), under NumPy's
  broadcasting rules: equal trailing lengths subtract elementwise, a length of 1 on either
  side is stretched, anything else raises \<^verbatim>\<open>ValueError\<close>. The result carries its number
  of columns, since a list of zero rows does not determine it.
\<close>

definition broadcast_sub :: "nat \<Rightarrow> real list list \<Rightarrow> real list \<Rightarrow> (nat \<times> real list list) outcome" where
  "broadcast_sub m a mu =
     (if m = length mu then Returns (m, map (\<lambda>row. map2 (-) row mu) a)
      else if length mu = 1 then Returns (m, map (\<lambda>row. map (\<lambda>v. v - mu ! 0) row) a)
      else if m = 1 then Returns (length mu, map (\<lambda>row. map (\<lambda>c. row ! 0 - c) mu) a)
      else Raises ValueError)"

definition column :: "real list list \<Rightarrow> nat \<Rightarrow> real list" where
  "column y j = map (\<lambda>row. row ! j) y"

text \<open>\<^verbatim>\<open>mean\<close> of one column; the mean of no values is 0/0.\<close>

definition np_mean :: "real list \<Rightarrow> real option" where
  "np_mean c = (if c = [] then None else Some (sum_list c / real (length c)))"

text \<open>
  \<^verbatim>\<open>std(ddof=1)\<close> of one column: the square root of the sum of squared deviations from the
  mean divided by \<open>n - 1\<close>; with fewer than two values the division is by zero.
\<close>

definition np_std_ddof1 :: "real list \<Rightarrow> real option" where
  "np_std_ddof1 c =
     (case np_mean c of
        None \<Rightarrow> None
      | Some mn \<Rightarrow>
          if length c < 2 then None
          else Some (sqrt (sum_list (map (\<lambda>v. (v - mn) * (v - mn)) c) / real (length c - 1))))"

text \<open>
  One position of \<^verbatim>\<open>y.mean(axis=0) / y.std(ddof=1, axis=0) * sqrtN\<close>, where
  \<^verbatim>\<open>sqrtN = n**0.5\<close> and \<open>n\<close> is the number of rows of \<^verbatim>\<open>y\<close>.
\<close>

definition tstat_at :: "real list \<Rightarrow> real option" where
  "tstat_at c =
     (case (np_mean c, np_std_ddof1 c) of
        (Some mn, Some sd) \<Rightarrow> if sd = 0 then None else Some (mn / sd * sqrt (real (length c)))
      | _ \<Rightarrow> None)"

text \<open>The whole statistic field of an array \<^verbatim>\<open>y\<close> with \<open>w\<close> columns.\<close>

definition tstat :: "nat \<Rightarrow> real list list \<Rightarrow> real list outcome" where
  "tstat w y =
     (case those (map (\<lambda>j. tstat_at (column y j)) [0..<w]) of
        None \<Rightarrow> NonFinite
      | Some t \<Rightarrow> Returns t)"

text \<open>\<^verbatim>\<open>t.max()\<close>: the maximum of a zero-size array raises \<^verbatim>\<open>ValueError\<close>.\<close>

definition np_max :: "real list \<Rightarrow> real outcome" where
  "np_max t = (case t of [] \<Rightarrow> Raises ValueError | v # vs \<Rightarrow> Returns (fold max vs v))"

text \<open>
  Python's builtin \<^verbatim>\<open>max\<close> of a list: keep the first item, replace it by each later item
  that compares greater. An empty argument raises \<^verbatim>\<open>ValueError\<close>.
\<close>

definition py_max :: "real list \<Rightarrow> real outcome" where
  "py_max ms =
     (case ms of
        [] \<Rightarrow> Raises ValueError
      | v # vs \<Rightarrow> Returns (fold (\<lambda>item cur. if cur < item then item else cur) vs v))"

subsection \<open>Relabelings\<close>

text \<open>
  \<^verbatim>\<open>itertools.product([0,1], repeat=n)\<close>, as the itertools documentation defines it: start
  from the single empty tuple and, for each of the \<open>n\<close> pools, extend every tuple built so
  far by each element of the pool.
\<close>

fun product01 :: "nat \<Rightarrow> int list list" where
  "product01 0 = [[]]"
| "product01 (Suc n) = concat (map (\<lambda>p. map (\<lambda>l. p @ [l]) [0, 1]) (product01 n))"

text \<open>\<^verbatim>\<open>signs = -2*np.array(labels) + 1\<close>\<close>

definition signs_of :: "int list \<Rightarrow> int list" where
  "signs_of labels = map (\<lambda>l. - 2 * l + 1) labels"

text \<open>\<^verbatim>\<open>yy = (y.copy().T*signs).T\<close>: row \<open>k\<close> of \<^verbatim>\<open>y\<close> is multiplied by \<^verbatim>\<open>signs[k]\<close>.\<close>

definition sign_permute :: "real list list \<Rightarrow> int list \<Rightarrow> real list list" where
  "sign_permute y sgns = map2 (\<lambda>row s. map (\<lambda>v. v * real_of_int s) row) y sgns"

text \<open>The statistic field of one relabeling, as both loops recompute it.\<close>

definition permuted_tstat :: "nat \<Rightarrow> real list list \<Rightarrow> int list \<Rightarrow> real list outcome" where
  "permuted_tstat w y labels = tstat w (sign_permute y (signs_of labels))"

text \<open>The first loop: \<^verbatim>\<open>T.append(t.max())\<close> for every relabeling.\<close>

definition primary_pdf :: "nat \<Rightarrow> real list list \<Rightarrow> int list list \<Rightarrow> real list outcome" where
  "primary_pdf w y LABELS = for_each (\<lambda>labels. bind_outcome (permuted_tstat w y labels) np_max) LABELS"

subsection \<open>Percentile\<close>

text \<open>
  Linear interpolation in sorted data at a fractional index, as NumPy 1.10 computes it: the
  neighbours below and above the index (the one above clipped to the last position) are
  weighted by the distance of the index from each.
\<close>

definition linear_interp :: "real list \<Rightarrow> real \<Rightarrow> real" where
  "linear_interp s idx =
     (let below = nat \<lfloor>idx\<rfloor>;
          above = min (below + 1) (length s - 1);
          weight_above = idx - real below
      in s ! below * (1 - weight_above) + s ! above * weight_above)"

text \<open>
  \<^verbatim>\<open>np.percentile(a, q)\<close> with the default linear interpolation: \<open>q\<close> outside [0,100] raises
  \<^verbatim>\<open>ValueError\<close>; otherwise the sorted data are read at the fractional index
  \<open>q/100 * (N - 1)\<close>. The percentile of no data is nan.
\<close>

definition np_percentile :: "real list \<Rightarrow> real \<Rightarrow> real outcome" where
  "np_percentile a q =
     (if q < 0 \<or> 100 < q then Raises ValueError
      else if a = [] then NonFinite
      else Returns (linear_interp (sort a) (q / 100 * real (length a - 1))))"

subsection \<open>Clusters\<close>

text \<open>
  \<^verbatim>\<open>ndimage.label\<close> on a one-dimensional boolean field: a single scan from the left; each
  maximal run of true positions gets the next positive integer, false positions get 0. The
  result is the label array and the number of runs.
\<close>

fun label_scan :: "bool \<Rightarrow> nat \<Rightarrow> bool list \<Rightarrow> nat list \<times> nat" where
  "label_scan prev c [] = ([], c)"
| "label_scan prev c (b # bs) =
     (if b then
        (let c' = (if prev then c else c + 1);
             r = label_scan True c' bs
         in (c' # fst r, snd r))
      else
        (let r = label_scan False c bs
         in (0 # fst r, snd r)))"

definition ndimage_label :: "bool list \<Rightarrow> nat list \<times> nat" where
  "ndimage_label bs = label_scan False 0 bs"

text \<open>\<^verbatim>\<open>z[i]\<close> for a boolean mask \<^verbatim>\<open>i\<close>.\<close>

definition masked :: "real list \<Rightarrow> bool list \<Rightarrow> real list" where
  "masked z i = map fst (filter snd (zip z i))"

text \<open>\<^verbatim>\<open>np.trapz(ys)\<close> with unit spacing: \<^verbatim>\<open>((ys[1:] + ys[:-1]) / 2.0).sum()\<close>.\<close>

definition np_trapz :: "real list \<Rightarrow> real" where
  "np_trapz ys = sum_list (map2 (\<lambda>a b. (a + b) / 2) (tl ys) (butlast ys))"

text \<open>
  \<^verbatim>\<open>cluster_integral(z, thresh, i)\<close>. In the one-position branch the source returns the
  one-element array \<^verbatim>\<open>z[i] - thresh\<close>; it is identified with its element, which is what
  the comparisons it takes part in, and \<^verbatim>\<open>np.array(M)\<close> under the NumPy 1.10 the script
  names, make of it.
\<close>

definition cluster_integral :: "real list \<Rightarrow> real \<Rightarrow> bool list \<Rightarrow> real" where
  "cluster_integral z thresh i =
     (if length (filter id i) = 1 then hd (masked z i) - thresh
      else np_trapz (map (\<lambda>v. v - thresh) (masked z i)))"

text \<open>
  \<^verbatim>\<open>[cluster_integral(np.abs(t), tCrit, L==(i+1)) for i in range(nC)]\<close> for
  \<^verbatim>\<open>L,nC = ndimage.label( np.abs(t) > tCrit )\<close>.
\<close>

definition cluster_integrals :: "real list \<Rightarrow> real \<Rightarrow> real list" where
  "cluster_integrals t tCrit =
     (let (L, nC) = ndimage_label (map (\<lambda>v. tCrit < \<bar>v\<bar>) t)
      in map (\<lambda>i. cluster_integral (map abs t) tCrit (map (\<lambda>l. l = i + 1) L)) [0..<nC])"

text \<open>The body of the second loop after \<^verbatim>\<open>t\<close> is recomputed: the value appended to \<^verbatim>\<open>M\<close>.\<close>

definition max_cluster_integral :: "real list \<Rightarrow> real \<Rightarrow> real outcome" where
  "max_cluster_integral t tCrit =
     (let (L, nC) = ndimage_label (map (\<lambda>v. tCrit < \<bar>v\<bar>) t)
      in if nC > 0 then py_max (cluster_integrals t tCrit) else Returns 0)"

definition secondary_pdf :: "nat \<Rightarrow> real list list \<Rightarrow> int list list \<Rightarrow> real \<Rightarrow> real list outcome" where
  "secondary_pdf w y LABELS tCrit =
     for_each (\<lambda>labels. bind_outcome (permuted_tstat w y labels) (\<lambda>t. max_cluster_integral t tCrit)) LABELS"

subsection \<open>P values and the test\<close>

text \<open>The third component of the result: \<^verbatim>\<open>np.nan\<close> when no cluster survives, else a list.\<close>

datatype pvalues = PNan | PList "real list"

text \<open>\<^verbatim>\<open>(M > m).mean()\<close>\<close>

definition frac_greater :: "real list \<Rightarrow> real \<Rightarrow> real" where
  "frac_greater M m = real (length (filter (\<lambda>v. m < v) M)) / real (length M)"

definition p_values :: "real list \<Rightarrow> real list \<Rightarrow> real \<Rightarrow> pvalues" where
  "p_values M t0 tCrit =
     (let (L, nC) = ndimage_label (map (\<lambda>v. tCrit < \<bar>v\<bar>) t0)
      in if nC > 0 then
           (let m0 = cluster_integrals t0 tCrit;
                p = map (\<lambda>m. frac_greater M m) m0
            in PList (map (\<lambda>pp. max pp (1 / real (length M))) p))
         else PNan)"

text \<open>
  The local variables of \<^verbatim>\<open>ttest_nonparametric\<close> when it reaches its \<^verbatim>\<open>return\<close>
  statement (\<open>loc_w\<close> is \<^verbatim>\<open>y.shape[1]\<close>, the number of domain positions of \<^verbatim>\<open>y\<close>).
\<close>

record locals =
  loc_w :: nat
  loc_y :: "real list list"
  loc_n :: nat
  loc_t0 :: "real list"
  loc_LABELS :: "int list list"
  loc_T :: "real list"
  loc_tCrit :: real
  loc_M :: "real list"
  loc_p :: pvalues

definition ttest_locals :: "real list list \<Rightarrow> real list \<Rightarrow> real \<Rightarrow> locals outcome" where
  "ttest_locals x mu alpha =
     bind_outcome (broadcast_sub (length x) (np_transpose x) mu) (\<lambda>(w, y).
       let n = length y in
       bind_outcome (tstat w y) (\<lambda>t0.
         let LABELS = product01 n in
         bind_outcome (primary_pdf w y LABELS) (\<lambda>T.
           bind_outcome (np_percentile T (100 * (1 - alpha))) (\<lambda>tCrit.
             bind_outcome (secondary_pdf w y LABELS tCrit) (\<lambda>M.
               Returns \<lparr>loc_w = w, loc_y = y, loc_n = n, loc_t0 = t0, loc_LABELS = LABELS,
                        loc_T = T, loc_tCrit = tCrit, loc_M = M,
                        loc_p = p_values M t0 tCrit\<rparr>)))))"

text \<open>\<^verbatim>\<open>return t0,tCrit,p\<close>\<close>

definition ttest_nonparametric :: "real list list \<Rightarrow> real list \<Rightarrow> real \<Rightarrow> (real list \<times> real \<times> pvalues) outcome" where
  "ttest_nonparametric x mu alpha =
     bind_outcome (ttest_locals x mu alpha) (\<lambda>s. Returns (loc_t0 s, loc_tCrit s, loc_p s))"

subsection \<open>A worked example\<close>

text \<open>
  Two observations of a two-position field, \<^verbatim>\<open>x = [[1,3],[2,4]]\<close> (observation 1 is
  \<open>[1,2]\<close>, observation 2 is \<open>[3,4]\<close>), against the datum \<open>[0,0]\<close>, and the local variables
  \<^verbatim>\<open>ttest_nonparametric\<close> ends with at \<^verbatim>\<open>alpha = 0.05\<close>.
\<close>

definition example_x :: "real list list" where
  "example_x = [[1, 3], [2, 4]]"

definition example_locals :: locals where
  "example_locals =
     \<lparr>loc_w = 2, loc_y = [[1, 2], [3, 4]], loc_n = 2, loc_t0 = [2, 3],
      loc_LABELS = [[0, 0], [0, 1], [1, 0], [1, 1]],
      loc_T = [3, - (1 / 3), 1 / 2, - 2], loc_tCrit = 21 / 8,
      loc_M = [3 / 8, 0, 0, 3 / 8], loc_p = PList [1 / 4]\<rparr>"

text \<open>
  A second example, \<^verbatim>\<open>x = [[1,3],[3,-2]]\<close> against the datum \<open>[0,0]\<close>: here no position of
  the statistic field reaches the critical threshold at \<^verbatim>\<open>alpha = 0.05\<close>.
\<close>

definition example_x2 :: "real list list" where
  "example_x2 = [[1, 3], [3, - 2]]"

subsection \<open>The specification's wording, for comparison with the code\<close>

text \<open>
  The primary distribution as the specification words it: for each relabeling the maximum
  \<^emph>\<open>absolute\<close> value of the permuted statistic field. The code's loop is \<open>primary_pdf\<close>.
\<close>

definition primary_pdf_max_abs :: "nat \<Rightarrow> real list list \<Rightarrow> int list list \<Rightarrow> real list outcome" where
  "primary_pdf_max_abs w y LABELS =
     for_each (\<lambda>labels. bind_outcome (permuted_tstat w y labels) (\<lambda>t. np_max (map abs t))) LABELS"




section \<open>Basic facts\<close>

lemma bind_outcome_Returns_iff:
  "bind_outcome r f = Returns v \<longleftrightarrow> (\<exists>a. r = Returns a \<and> f a = Returns v)"
  by (cases r) (simp_all add: bind_outcome_def)

lemma for_each_Returns_iff:
  "for_each f xs = Returns ys \<longleftrightarrow> list_all2 (\<lambda>a b. f a = Returns b) xs ys"
  by (induction xs arbitrary: ys) (auto simp: bind_outcome_Returns_iff list_all2_Cons1)

lemma ttest_locals_ReturnsD:
  assumes "ttest_locals x mu alpha = Returns s"
  shows "broadcast_sub (length x) (np_transpose x) mu = Returns (loc_w s, loc_y s)"
    and "loc_n s = length (loc_y s)"
    and "tstat (loc_w s) (loc_y s) = Returns (loc_t0 s)"
    and "loc_LABELS s = product01 (loc_n s)"
    and "primary_pdf (loc_w s) (loc_y s) (loc_LABELS s) = Returns (loc_T s)"
    and "np_percentile (loc_T s) (100 * (1 - alpha)) = Returns (loc_tCrit s)"
    and "secondary_pdf (loc_w s) (loc_y s) (loc_LABELS s) (loc_tCrit s) = Returns (loc_M s)"
    and "loc_p s = p_values (loc_M s) (loc_t0 s) (loc_tCrit s)"
  using assms
  by (auto simp: ttest_locals_def bind_outcome_Returns_iff Let_def)

lemma ttest_nonparametric_Returns_iff:
  "ttest_nonparametric x mu alpha = Returns r \<longleftrightarrow>
     (\<exists>s. ttest_locals x mu alpha = Returns s \<and> r = (loc_t0 s, loc_tCrit s, loc_p s))"
  by (auto simp: ttest_nonparametric_def bind_outcome_Returns_iff)

lemma length_broadcast_sub:
  "broadcast_sub m a mu = Returns (w, y) \<Longrightarrow> length y = length a"
  by (auto simp: broadcast_sub_def split: if_splits)

lemma length_np_transpose: "length (np_transpose x) = ncols x"
  by (simp add: np_transpose_def)

lemma product01_Suc: "product01 (Suc n) = concat (map (\<lambda>p. [p @ [0], p @ [1]]) (product01 n))"
  by simp

lemma length_product01: "length (product01 n) = 2 ^ n"
  by (induction n) (simp_all add: length_concat comp_def sum_list_triv)

lemma set_product01: "set (product01 n) = {l. length l = n \<and> set l \<subseteq> {0, 1}}"
proof (induction n)
  case 0
  then show ?case by auto
next
  case (Suc n)
  show ?case
  proof (rule set_eqI)
    fix l :: "int list"
    show "l \<in> set (product01 (Suc n)) \<longleftrightarrow> l \<in> {l. length l = Suc n \<and> set l \<subseteq> {0, 1}}"
    proof (cases l rule: rev_cases)
      case Nil
      then show ?thesis by (auto simp: Suc)
    next
      case (snoc p b)
      then show ?thesis by (auto simp: Suc)
    qed
  qed
qed

lemma distinct_product01: "distinct (product01 n)"
proof (induction n)
  case 0
  then show ?case by simp
next
  case (Suc n)
  have "distinct (concat (map (\<lambda>p. [p @ [0], p @ [1::int]]) (product01 n)))"
    using Suc by (intro distinct_concat) (auto simp: distinct_map inj_on_def)
  then show ?case by simp
qed

lemma hd_product01: "product01 n ! 0 = replicate n 0"
proof (induction n)
  case 0
  then show ?case by simp
next
  case (Suc n)
  have "product01 n \<noteq> []" using length_product01 [of n] by auto
  then obtain p ps where ps: "product01 n = p # ps" by (cases "product01 n") auto
  with Suc have "p = replicate n 0" by simp
  then show ?case by (simp add: ps replicate_append_same)
qed

lemma signs_of_values: "set l \<subseteq> {0, 1} \<Longrightarrow> set (signs_of l) \<subseteq> {1, - 1}"
  by (auto simp: signs_of_def)

lemma signs_of_zero: "signs_of (replicate n 0) = replicate n 1"
  by (simp add: signs_of_def)

lemma length_primary_pdf: "primary_pdf w y LABELS = Returns T \<Longrightarrow> length T = length LABELS"
  by (auto simp: primary_pdf_def for_each_Returns_iff dest: list_all2_lengthD)

section \<open>Evaluating the worked example\<close>

text \<open>With two observations \<open>a\<close> and \<open>b\<close> the statistic is \<open>(a + b) / \<bar>a - b\<bar>\<close>.\<close>

lemma sum_sq_dev_pair:
  "(a - (a + b) / 2) * (a - (a + b) / 2) + (b - (a + b) / 2) * (b - (a + b) / 2)
     = (a - b)\<^sup>2 / (2::real)"
  by (simp add: power2_eq_square field_simps)

lemma tstat_at_pair:
  assumes "a \<noteq> b"
  shows "tstat_at [a, b] = Some ((a + b) / \<bar>a - b\<bar>)"
proof -
  have sd: "np_std_ddof1 [a, b] = Some (\<bar>a - b\<bar> / sqrt 2)"
    by (simp add: np_std_ddof1_def np_mean_def sum_sq_dev_pair real_sqrt_divide)
  have "sqrt 2 * sqrt 2 = (2::real)" by simp
  then have "(a + b) / 2 / (\<bar>a - b\<bar> / sqrt 2) * sqrt 2 = (a + b) / \<bar>a - b\<bar>"
    using assms by (simp add: field_simps)
  then show ?thesis using assms by (simp add: tstat_at_def sd np_mean_def)
qed

lemma upt_2: "[0..<2] = [0, 1]"
  by (simp add: upt_rec)

lemma tstat_pairs:
  "a \<noteq> b \<Longrightarrow> c \<noteq> d \<Longrightarrow>
     tstat 2 [[a, c], [b, d]] = Returns [(a + b) / \<bar>a - b\<bar>, (c + d) / \<bar>c - d\<bar>]"
  by (simp add: tstat_def upt_2 column_def tstat_at_pair)

lemma product01_2: "product01 2 = [[0, 0], [0, 1], [1, 0], [1, 1]]"
  by (simp add: numeral_2_eq_2)

lemma example_y:
  "broadcast_sub (length example_x) (np_transpose example_x) [0, 0] = Returns (2, [[1, 2], [3, 4]])"
  by (simp add: example_x_def broadcast_sub_def np_transpose_def ncols_def)

lemma example_t0: "tstat 2 [[1, 2], [3, 4]] = Returns [2, 3]"
  by (simp add: tstat_pairs)

lemma example_T:
  "primary_pdf 2 [[1, 2], [3, 4]] [[0, 0], [0, 1], [1, 0], [1, 1]] = Returns [3, - (1 / 3), 1 / 2, - 2]"
  by (simp add: primary_pdf_def permuted_tstat_def sign_permute_def signs_of_def tstat_pairs
      bind_outcome_def np_max_def)

lemma example_tCrit: "np_percentile [3, - (1 / 3), 1 / 2, - 2] 95 = Returns (21 / 8)"
  by (simp add: np_percentile_def linear_interp_def)

lemma example_M:
  "secondary_pdf 2 [[1, 2], [3, 4]] [[0, 0], [0, 1], [1, 0], [1, 1]] (21 / 8)
     = Returns [3 / 8, 0, 0, 3 / 8]"
  by (simp add: secondary_pdf_def permuted_tstat_def sign_permute_def signs_of_def tstat_pairs
      bind_outcome_def max_cluster_integral_def ndimage_label_def cluster_integrals_def
      cluster_integral_def masked_def py_max_def)

lemma example_p: "p_values [3 / 8, 0, 0, 3 / 8] [2, 3] (21 / 8) = PList [1 / 4]"
  by (simp add: p_values_def ndimage_label_def cluster_integrals_def cluster_integral_def
      masked_def frac_greater_def)

lemma example_ttest_locals: "ttest_locals example_x [0, 0] (1 / 20) = Returns example_locals"
proof -
  have n: "length [[1, 2], [3, 4::real]] = 2" by simp
  show ?thesis
    unfolding ttest_locals_def example_y
    by (simp only: bind_outcome_def outcome.case prod.case Let_def n example_t0 product01_2
        example_T example_tCrit example_M example_p example_locals_def)
      (simp add: example_tCrit example_M example_p)
qed

lemma example_ttest:
  "ttest_nonparametric example_x [0, 0] (1 / 20) = Returns ([2, 3], 21 / 8, PList [1 / 4])"
  by (simp add: ttest_nonparametric_def example_ttest_locals bind_outcome_def example_locals_def)

section \<open>The enumeration of relabelings\<close>

lemma loc_n_ncols:
  assumes "ttest_locals x mu alpha = Returns s"
  shows "loc_n s = ncols x"
  using ttest_locals_ReturnsD(1,2) [OF assms] length_broadcast_sub length_np_transpose
  by metis

text \<open>
  C5. \<^verbatim>\<open>itertools.product([0,1], repeat=n)\<close> lists, without repetition, exactly the \<open>2 ^ n\<close>
  label tuples of length \<open>n\<close> over \<open>{0, 1}\<close>; \<open>sign = 1 - 2*label\<close> turns each into a vector
  of \<open>+1\<close> and \<open>-1\<close>; the first tuple is the all-positive assignment; and whenever
  \<^verbatim>\<open>ttest_nonparametric\<close> reaches its end for \<open>n\<close> observations, \<^verbatim>\<open>LABELS\<close> is that
  enumeration and the primary distribution \<^verbatim>\<open>T\<close> has exactly \<open>2 ^ n\<close> members.
\<close>

theorem exhaustive_enumeration:
  "length (product01 n) = 2 ^ n \<and> distinct (product01 n)
   \<and> set (product01 n) = {l. length l = n \<and> set l \<subseteq> {0, 1}}
   \<and> (\<forall>l \<in> set (product01 n). signs_of l = map (\<lambda>b. 1 - 2 * b) l \<and> set (signs_of l) \<subseteq> {1, - 1})
   \<and> signs_of (product01 n ! 0) = replicate n 1
   \<and> (\<forall>s. ttest_locals x mu alpha = Returns s \<and> ncols x = n \<longrightarrow>
         loc_LABELS s = product01 n \<and> length (loc_T s) = 2 ^ n)"
proof -
  have signs: "\<forall>l \<in> set (product01 n). signs_of l = map (\<lambda>b. 1 - 2 * b) l \<and> set (signs_of l) \<subseteq> {1, - 1}"
  proof
    fix l assume "l \<in> set (product01 n)"
    then have "set l \<subseteq> {0, 1}" by (simp add: set_product01)
    then show "signs_of l = map (\<lambda>b. 1 - 2 * b) l \<and> set (signs_of l) \<subseteq> {1, - 1}"
      by (auto simp: signs_of_def)
  qed
  have run: "\<forall>s. ttest_locals x mu alpha = Returns s \<and> ncols x = n \<longrightarrow>
         loc_LABELS s = product01 n \<and> length (loc_T s) = 2 ^ n"
  proof (intro allI impI)
    fix s assume a: "ttest_locals x mu alpha = Returns s \<and> ncols x = n"
    then have r: "ttest_locals x mu alpha = Returns s" and n: "ncols x = n" by simp_all
    have L: "loc_LABELS s = product01 n"
      using ttest_locals_ReturnsD(4) [OF r] loc_n_ncols [OF r] n by simp
    have "length (loc_T s) = length (loc_LABELS s)"
      using ttest_locals_ReturnsD(5) [OF r] by (rule length_primary_pdf)
    then show "loc_LABELS s = product01 n \<and> length (loc_T s) = 2 ^ n"
      using L by (simp add: length_product01)
  qed
  show ?thesis
    by (intro conjI length_product01 distinct_product01 set_product01 signs run)
      (simp add: hd_product01 signs_of_zero)
qed

theorem exhaustive_enumeration_witness:
  "ttest_locals example_x [0, 0] (1 / 20) = Returns example_locals \<and> ncols example_x = 2
   \<and> [0, 1] \<in> set (product01 2) \<and> signs_of [0, 1] = [1, - 1]
   \<and> loc_LABELS example_locals = product01 2 \<and> length (loc_T example_locals) = 4"
proof -
  have n: "ncols example_x = 2" by (simp add: ncols_def example_x_def)
  have m: "[0, 1] \<in> set (product01 2)" by (simp add: product01_2)
  from exhaustive_enumeration [of 2 example_x "[0, 0]" "1 / 20"]
  have "loc_LABELS example_locals = product01 2 \<and> length (loc_T example_locals) = 2 ^ 2"
    using example_ttest_locals n by blast
  moreover from exhaustive_enumeration [of 2 example_x "[0, 0]" "1 / 20"] m
  have "signs_of [0, 1] = map (\<lambda>b. 1 - 2 * b) [0, 1]" by blast
  ultimately show ?thesis using example_ttest_locals n m by simp
qed

section \<open>Labelling and cluster integrals\<close>

lemma length_label_scan: "length (fst (label_scan p c bs)) = length bs"
  by (induction bs arbitrary: p c) (simp_all add: Let_def)

lemma label_scan_append:
  "label_scan p c (xs @ ys) =
     (fst (label_scan p c xs) @ fst (label_scan (if xs = [] then p else last xs) (snd (label_scan p c xs)) ys),
      snd (label_scan (if xs = [] then p else last xs) (snd (label_scan p c xs)) ys))"
proof (induction xs arbitrary: p c)
  case Nil
  then show ?case by simp
next
  case (Cons b bs)
  show ?case
    by (cases b; cases "bs = []") (simp_all add: Let_def Cons.IH)
qed

lemma label_scan_run:
  "label_scan False c (replicate (Suc k) True) = (replicate (Suc k) (Suc c), Suc c)"
proof -
  have "label_scan True d (replicate k True) = (replicate k d, d)" for d
    by (induction k) (simp_all add: Let_def)
  then show ?thesis by (simp add: Let_def)
qed

lemma label_scan_bounds:
  "l \<in> set (fst (label_scan p c bs)) \<Longrightarrow> l = 0 \<or> ((if p then c else Suc c) \<le> l \<and> l \<le> snd (label_scan p c bs))"
proof (induction bs arbitrary: p c)
  case Nil
  then show ?case by simp
next
  case (Cons b bs)
  have mono: "d \<le> snd (label_scan q d bs)" for q d
    by (induction bs arbitrary: q d) (auto simp: Let_def intro: order_trans le_SucI Suc_leD)
  show ?case
  proof (cases b)
    case True
    let ?c' = "if p then c else Suc c"
    from Cons.prems True have "l = ?c' \<or> l \<in> set (fst (label_scan True ?c' bs))"
      by (auto simp: Let_def)
    then show ?thesis
    proof
      assume "l = ?c'"
      then show ?thesis using mono [of ?c' True] True by (auto simp: Let_def)
    next
      assume "l \<in> set (fst (label_scan True ?c' bs))"
      from Cons.IH [OF this] show ?thesis using True by (auto simp: Let_def)
    qed
  next
    case False
    from Cons.prems False have "l = 0 \<or> l \<in> set (fst (label_scan False c bs))"
      by (auto simp: Let_def)
    then show ?thesis
    proof
      assume "l = 0" then show ?thesis by simp
    next
      assume "l \<in> set (fst (label_scan False c bs))"
      from Cons.IH [OF this] show ?thesis using False by (auto simp: Let_def)
    qed
  qed
qed

lemma label_scan_count_mono: "c \<le> snd (label_scan p c bs)"
  by (induction bs arbitrary: p c) (auto simp: Let_def intro: order_trans le_SucI Suc_leD)

lemma map_all_False: "\<forall>l \<in> set xs. \<not> P l \<Longrightarrow> map P xs = replicate (length xs) False"
  by (induction xs) simp_all

text \<open>
  A maximal run of true positions, after \<open>pre\<close> and before \<open>post\<close>, gets the label following
  the number of runs in \<open>pre\<close>, and no other position gets that label.
\<close>

lemma ndimage_label_run_mask:
  assumes pre: "pre = [] \<or> \<not> last pre"
    and post: "post = [] \<or> \<not> hd post"
    and len: "0 < len"
  shows "map (\<lambda>l. l = snd (ndimage_label pre) + 1) (fst (ndimage_label (pre @ replicate len True @ post)))
           = replicate (length pre) False @ replicate len True @ replicate (length post) False"
    and "snd (ndimage_label pre) < snd (ndimage_label (pre @ replicate len True @ post))"
proof -
  obtain k where k: "len = Suc k" using len by (cases len) auto
  define c where "c = snd (label_scan False 0 pre)"
  have p0: "(if pre = [] then False else last pre) = False" using pre by auto
  have rn: "replicate len True \<noteq> []" using len by simp
  have lastrun: "last (replicate len True) = True" using len by simp
  define Lpost where "Lpost = fst (label_scan True (Suc c) post)"
  define cpost where "cpost = snd (label_scan True (Suc c) post)"
  have whole: "label_scan False 0 (pre @ replicate len True @ post)
      = (fst (label_scan False 0 pre) @ replicate len (Suc c) @ Lpost, cpost)"
    unfolding label_scan_append p0 Lpost_def cpost_def c_def [symmetric]
    using rn lastrun by (simp add: k label_scan_run del: replicate.simps)
  have pre_labels: "\<forall>l \<in> set (fst (label_scan False 0 pre)). l \<noteq> Suc c"
  proof
    fix l assume "l \<in> set (fst (label_scan False 0 pre))"
    from label_scan_bounds [OF this] show "l \<noteq> Suc c" by (auto simp: c_def)
  qed
  have post_labels: "\<forall>l \<in> set Lpost. l \<noteq> Suc c"
  proof (cases post)
    case Nil
    then show ?thesis by (simp add: Lpost_def)
  next
    case (Cons b bs)
    with post have b: "\<not> b" by simp
    have L: "Lpost = 0 # fst (label_scan False (Suc c) bs)"
      using b by (simp add: Lpost_def Cons Let_def)
    show ?thesis
    proof
      fix l assume "l \<in> set Lpost"
      then have "l = 0 \<or> l \<in> set (fst (label_scan False (Suc c) bs))" by (simp add: L)
      then show "l \<noteq> Suc c"
        using label_scan_bounds [of l False "Suc c" bs] by auto
    qed
  qed
  have lenpost: "length Lpost = length post" by (simp add: Lpost_def length_label_scan)
  have "map (\<lambda>l. l = Suc c) (fst (label_scan False 0 pre)) = replicate (length pre) False"
    using map_all_False [of "fst (label_scan False 0 pre)" "\<lambda>l. l = Suc c"] pre_labels
    by (simp add: length_label_scan)
  moreover have "map (\<lambda>l. l = Suc c) Lpost = replicate (length post) False"
    using map_all_False [of Lpost "\<lambda>l. l = Suc c"] post_labels by (simp add: lenpost)
  ultimately show "map (\<lambda>l. l = snd (ndimage_label pre) + 1) (fst (ndimage_label (pre @ replicate len True @ post)))
           = replicate (length pre) False @ replicate len True @ replicate (length post) False"
    by (simp add: ndimage_label_def whole c_def [symmetric])
  have "Suc c \<le> cpost" unfolding cpost_def by (rule label_scan_count_mono)
  then show "snd (ndimage_label pre) < snd (ndimage_label (pre @ replicate len True @ post))"
    by (simp add: ndimage_label_def whole c_def [symmetric])
qed

lemma masked_append:
  "length z1 = length m1 \<Longrightarrow> masked (z1 @ z2) (m1 @ m2) = masked z1 m1 @ masked z2 m2"
  by (simp add: masked_def)

lemma masked_all_False: "masked z (replicate k False) = []"
  by (induction k arbitrary: z) (auto simp: masked_def zip_Cons split: list.split)

lemma masked_all_True: "length z = k \<Longrightarrow> masked z (replicate k True) = z"
proof (induction z arbitrary: k)
  case Nil
  then show ?case by (simp add: masked_def)
next
  case (Cons v vs)
  then obtain k' where "k = Suc k'" "length vs = k'" by (cases k) auto
  with Cons.IH [of k'] show ?case by (simp add: masked_def)
qed

lemma masked_run:
  assumes "length z = a + len + r"
  shows "masked z (replicate a False @ replicate len True @ replicate r False) = take len (drop a z)"
proof -
  have z: "z = take a z @ take len (drop a z) @ drop len (drop a z)"
    by (simp only: append_take_drop_id)
  have la: "length (take a z) = length (replicate a False)" using assms by simp
  have ll: "length (take len (drop a z)) = length (replicate len True)" using assms by simp
  have "masked z (replicate a False @ replicate len True @ replicate r False)
      = masked (take a z @ take len (drop a z) @ drop len (drop a z))
          (replicate a False @ replicate len True @ replicate r False)"
    using z by simp
  also have "\<dots> = masked (take a z) (replicate a False)
      @ masked (take len (drop a z)) (replicate len True)
      @ masked (drop len (drop a z)) (replicate r False)"
    by (simp only: masked_append [OF la] masked_append [OF ll])
  also have "\<dots> = take len (drop a z)"
    using assms by (simp add: masked_all_False masked_all_True)
  finally show ?thesis .
qed

lemma count_run_mask:
  "length (filter id (replicate a False @ replicate len True @ replicate r False)) = len"
  by simp

lemma np_trapz_sum:
  "np_trapz ys = (\<Sum>k<length ys - 1. (ys ! (k + 1) + ys ! k) / 2)"
proof -
  have "sum_list (map2 (\<lambda>a b. (a + b) / 2) (tl ys) (butlast ys))
      = (\<Sum>k = 0..<length ys - 1. (map2 (\<lambda>a b. (a + b) / 2) (tl ys) (butlast ys)) ! k)"
    by (simp add: sum_list_sum_nth)
  also have "\<dots> = (\<Sum>k = 0..<length ys - 1. (ys ! (k + 1) + ys ! k) / 2)"
    by (rule sum.cong) (simp_all add: nth_tl nth_butlast)
  finally show ?thesis by (simp add: np_trapz_def atLeast0LessThan)
qed

lemma cluster_integral_run_mask:
  assumes "length z = a + len + r" and "0 < len"
  shows "cluster_integral z thresh (replicate a False @ replicate len True @ replicate r False)
     = (if len = 1 then z ! a - thresh
        else (\<Sum>k<len - 1. ((z ! (a + k + 1) - thresh) + (z ! (a + k) - thresh)) / 2))"
proof (cases "len = 1")
  case True
  have "a < length z" using assms by simp
  then have "hd (drop a z) = z ! a" by (rule hd_drop_conv_nth)
  then have "hd (take len (drop a z)) = z ! a"
    using hd_take [OF assms(2), of "drop a z"] by simp
  then show ?thesis
    unfolding cluster_integral_def masked_run [OF assms(1)] count_run_mask
    using True by simp
next
  case False
  have len: "length (map (\<lambda>v. v - thresh) (take len (drop a z))) = len"
    using assms by simp
  have "np_trapz (map (\<lambda>v. v - thresh) (take len (drop a z)))
      = (\<Sum>k<len - 1. ((z ! (a + k + 1) - thresh) + (z ! (a + k) - thresh)) / 2)"
    unfolding np_trapz_sum len
    by (rule sum.cong) (use assms in \<open>simp_all add: add.assoc\<close>)
  then show ?thesis
    unfolding cluster_integral_def masked_run [OF assms(1)] count_run_mask
    using False by simp
qed

lemma example_labels:
  "ndimage_label (map (\<lambda>v. 4 < v) [0, 5, 6, 0, 7, 0::real]) = ([0, 1, 1, 0, 2, 0], 2)"
  by (simp add: ndimage_label_def)

lemma example_integrals: "cluster_integrals [0, 5, 6, 0, 7, 0] 4 = [3 / 2, 3]"
  by (simp add: cluster_integrals_def ndimage_label_def cluster_integral_def masked_def np_trapz_def)

text \<open>
  C3. Let a maximal run of \<open>len\<close> supra-threshold positions of the field \<open>z\<close> start at
  position \<open>length pre\<close>. \<^verbatim>\<open>ndimage.label\<close> gives it a label of its own, the mask of that label
  selects exactly the run, and \<^verbatim>\<open>cluster_integral\<close> on that mask returns
  \<open>z[length pre] - thresh\<close> when \<open>len = 1\<close> and otherwise the unit-spacing trapezoidal sum of
  \<open>z - thresh\<close> over the run. For the field \<open>[0, 5, 6, 0, 7, 0]\<close> and threshold 4 the labels
  are \<open>[0, 1, 1, 0, 2, 0]\<close> (clusters at positions 1..2 and 4..4) and the integrals are 1.5 and 3.
\<close>

theorem cluster_integral_of_maximal_run:
  assumes "map (\<lambda>v. thresh < v) z = pre @ replicate len True @ post"
    and "pre = [] \<or> \<not> last pre"
    and "post = [] \<or> \<not> hd post"
    and "0 < len"
  shows "snd (ndimage_label pre) < snd (ndimage_label (map (\<lambda>v. thresh < v) z))
    \<and> map (\<lambda>l. l = snd (ndimage_label pre) + 1) (fst (ndimage_label (map (\<lambda>v. thresh < v) z)))
        = replicate (length pre) False @ replicate len True @ replicate (length post) False
    \<and> cluster_integral z thresh
          (map (\<lambda>l. l = snd (ndimage_label pre) + 1) (fst (ndimage_label (map (\<lambda>v. thresh < v) z))))
        = (if len = 1 then z ! length pre - thresh
           else (\<Sum>k<len - 1. ((z ! (length pre + k + 1) - thresh) + (z ! (length pre + k) - thresh)) / 2))
    \<and> ndimage_label (map (\<lambda>v. 4 < v) [0, 5, 6, 0, 7, 0::real]) = ([0, 1, 1, 0, 2, 0], 2)
    \<and> cluster_integrals [0, 5, 6, 0, 7, 0] 4 = [3 / 2, 3]"
proof -
  have lz: "length z = length pre + len + length post"
    using arg_cong [OF assms(1), of length] by simp
  note m = ndimage_label_run_mask [OF assms(2,3,4)]
  show ?thesis
    unfolding assms(1)
    using m cluster_integral_run_mask [OF lz assms(4)] example_labels example_integrals
    by (simp only: simp_thms)
qed

theorem cluster_integral_of_maximal_run_witness:
  "map (\<lambda>v. 4 < v) [0, 5, 6, 0, 7, 0::real] = [False, True, True, False] @ replicate 1 True @ [False]
   \<and> \<not> last [False, True, True, False] \<and> \<not> hd [False] \<and> (0::nat) < 1
   \<and> cluster_integral [0, 5, 6, 0, 7, 0] 4 (map (\<lambda>l. l = 2) [0, 1, 1, 0, 2, 0::nat]) = 3"
proof -
  have a: "map (\<lambda>v. 4 < v) [0, 5, 6, 0, 7, 0::real] = [False, True, True, False] @ replicate 1 True @ [False]"
    by simp
  have b: "[False, True, True, False] = [] \<or> \<not> last [False, True, True, False]" by simp
  have c: "[False] = [] \<or> \<not> hd [False]" by simp
  have d: "(0::nat) < 1" by simp
  from cluster_integral_of_maximal_run [OF a b c d]
  show ?thesis by (simp add: ndimage_label_def)
qed

section \<open>Clusters of a thresholded field\<close>

lemma label_scan_nonzero_iff:
  "(p \<longrightarrow> 0 < c) \<Longrightarrow> j < length bs \<Longrightarrow> (fst (label_scan p c bs) ! j \<noteq> 0) = bs ! j"
proof (induction bs arbitrary: p c j)
  case Nil
  then show ?case by simp
next
  case (Cons b bs)
  show ?case
  proof (cases j)
    case 0
    then show ?thesis using Cons.prems by (auto simp: Let_def)
  next
    case (Suc i)
    then have i: "i < length bs" using Cons.prems by simp
    show ?thesis
    proof (cases b)
      case True
      have "(fst (label_scan True (if p then c else c + 1) bs) ! i \<noteq> 0) = bs ! i"
        using Cons.prems(1) by (intro Cons.IH i) auto
      then show ?thesis using True Suc by (simp add: Let_def)
    next
      case False
      have "(fst (label_scan False c bs) ! i \<noteq> 0) = bs ! i"
        by (intro Cons.IH i) simp
      then show ?thesis using False Suc by (simp add: Let_def)
    qed
  qed
qed

lemma label_scan_occurs:
  "c < l \<Longrightarrow> l \<le> snd (label_scan p c bs) \<Longrightarrow> l \<in> set (fst (label_scan p c bs))"
proof (induction bs arbitrary: p c)
  case Nil
  then show ?case by simp
next
  case (Cons b bs)
  show ?case
  proof (cases b)
    case True
    let ?c' = "if p then c else c + 1"
    have snd_eq: "snd (label_scan p c (b # bs)) = snd (label_scan True ?c' bs)"
      using True by (simp add: Let_def)
    have fst_eq: "fst (label_scan p c (b # bs)) = ?c' # fst (label_scan True ?c' bs)"
      using True by (simp add: Let_def)
    show ?thesis
    proof (cases "l = ?c'")
      case True
      then show ?thesis by (simp only: fst_eq list.set insertI1)
    next
      case False
      with Cons.prems(1) have "?c' < l" by (auto split: if_splits)
      from Cons.IH [OF this] Cons.prems(2) show ?thesis
        by (simp only: fst_eq snd_eq list.set insert_iff simp_thms)
    qed
  next
    case False
    from Cons.IH [OF Cons.prems(1), of False] Cons.prems(2) False show ?thesis
      by (simp add: Let_def)
  qed
qed

lemma ndimage_label_length: "length (fst (ndimage_label bs)) = length bs"
  by (simp add: ndimage_label_def length_label_scan)

lemma ndimage_label_nonzero_iff:
  "j < length bs \<Longrightarrow> (fst (ndimage_label bs) ! j \<noteq> 0) = bs ! j"
  using label_scan_nonzero_iff [of False 0 j bs] by (simp add: ndimage_label_def)

lemma ndimage_label_occurs:
  "i < snd (ndimage_label bs) \<Longrightarrow> i + 1 \<in> set (fst (ndimage_label bs))"
  unfolding ndimage_label_def by (rule label_scan_occurs) simp_all

lemma ndimage_label_count_pos_iff: "0 < snd (ndimage_label bs) \<longleftrightarrow> True \<in> set bs"
proof
  assume "0 < snd (ndimage_label bs)"
  then have "0 + 1 \<in> set (fst (ndimage_label bs))" by (rule ndimage_label_occurs)
  then obtain j where j: "j < length bs" "fst (ndimage_label bs) ! j = 1"
    by (auto simp: in_set_conv_nth ndimage_label_length)
  then have "bs ! j" using ndimage_label_nonzero_iff [of j bs] by simp
  then show "True \<in> set bs" using j(1) by (auto simp: in_set_conv_nth)
next
  assume "True \<in> set bs"
  then obtain j where j: "j < length bs" "bs ! j" by (auto simp: in_set_conv_nth)
  then have nz: "fst (ndimage_label bs) ! j \<noteq> 0"
    using ndimage_label_nonzero_iff [of j bs] by blast
  have "fst (ndimage_label bs) ! j \<in> set (fst (label_scan False 0 bs))"
    using j(1) by (simp add: ndimage_label_def length_label_scan)
  from label_scan_bounds [OF this] nz show "0 < snd (ndimage_label bs)"
    by (simp add: ndimage_label_def)
qed

lemma length_masked: "length z = length i \<Longrightarrow> length (masked z i) = length (filter id i)"
proof (induction z arbitrary: i)
  case Nil
  then show ?case by (simp add: masked_def)
next
  case (Cons v vs)
  then obtain b bs where i: "i = b # bs" "length vs = length bs" by (cases i) auto
  from Cons.IH [OF i(2)] show ?case by (simp add: i(1) masked_def)
qed

lemma set_masked:
  "v \<in> set (masked z i) \<Longrightarrow> \<exists>j. j < length z \<and> j < length i \<and> i ! j \<and> v = z ! j"
  by (auto simp: masked_def set_zip)

lemma masked_nonempty:
  "j < length z \<Longrightarrow> j < length i \<Longrightarrow> i ! j \<Longrightarrow> masked z i \<noteq> []"
proof -
  assume "j < length z" "j < length i" "i ! j"
  then have "(z ! j, True) \<in> set (zip z i)" by (auto simp: set_zip)
  then have "(z ! j, True) \<in> set (filter snd (zip z i))" by simp
  then show ?thesis unfolding masked_def by (metis empty_iff list.set(1) list.map_disc_iff)
qed

lemma np_trapz_nonneg: "\<forall>v \<in> set ys. 0 \<le> v \<Longrightarrow> 0 \<le> np_trapz ys"
proof -
  assume a: "\<forall>v \<in> set ys. 0 \<le> v"
  have "0 \<le> (ys ! (k + 1) + ys ! k) / 2" if "k < length ys - 1" for k
  proof -
    from that have "ys ! (k + 1) \<in> set ys" "ys ! k \<in> set ys" by simp_all
    with a show ?thesis by auto
  qed
  then show ?thesis unfolding np_trapz_sum by (intro sum_nonneg) simp
qed

lemma np_trapz_pos:
  assumes "\<forall>v \<in> set ys. 0 < v" and "2 \<le> length ys"
  shows "0 < np_trapz ys"
proof -
  have "0 < (ys ! (k + 1) + ys ! k) / 2" if "k < length ys - 1" for k
  proof -
    from that have "ys ! (k + 1) \<in> set ys" "ys ! k \<in> set ys" by simp_all
    with assms(1) show ?thesis by (auto intro: add_pos_pos)
  qed
  moreover have "{..<length ys - 1} \<noteq> {}" using assms(2) by (simp add: lessThan_empty_iff)
  ultimately show ?thesis unfolding np_trapz_sum by (intro sum_pos) simp_all
qed

text \<open>
  The integral of a label that occurs, over a field that exceeds the threshold wherever a
  label is set, is positive.
\<close>

lemma cluster_integral_pos:
  assumes len: "length z = length i"
    and sup: "\<forall>j < length z. i ! j \<longrightarrow> thresh < z ! j"
    and occ: "\<exists>j < length z. i ! j"
  shows "0 < cluster_integral z thresh i"
proof -
  have ne: "masked z i \<noteq> []" using occ len masked_nonempty by metis
  have all: "\<forall>v \<in> set (masked z i). thresh < v"
    using set_masked sup by blast
  show ?thesis
  proof (cases "length (filter id i) = 1")
    case True
    have "hd (masked z i) \<in> set (masked z i)" using ne by simp
    with all have "thresh < hd (masked z i)" by blast
    then show ?thesis using True by (simp add: cluster_integral_def)
  next
    case False
    have "length (masked z i) \<noteq> 0" using ne by simp
    moreover have "length (masked z i) = length (filter id i)" by (rule length_masked [OF len])
    ultimately have "2 \<le> length (masked z i)" using False by arith
    moreover have "\<forall>v \<in> set (map (\<lambda>v. v - thresh) (masked z i)). 0 < v" using all by simp
    ultimately have "0 < np_trapz (map (\<lambda>v. v - thresh) (masked z i))"
      by (intro np_trapz_pos) simp_all
    then show ?thesis using False by (simp add: cluster_integral_def)
  qed
qed

lemma length_cluster_integrals:
  "length (cluster_integrals t tCrit) = snd (ndimage_label (map (\<lambda>v. tCrit < \<bar>v\<bar>) t))"
  by (simp add: cluster_integrals_def case_prod_beta)

lemma cluster_integrals_pos:
  assumes "m \<in> set (cluster_integrals t tCrit)"
  shows "0 < m"
proof -
  define bs where "bs = map (\<lambda>v. tCrit < \<bar>v\<bar>) t"
  define L where "L = fst (ndimage_label bs)"
  define nC where "nC = snd (ndimage_label bs)"
  from assms obtain i where i: "i < nC"
    and m: "m = cluster_integral (map abs t) tCrit (map (\<lambda>l. l = i + 1) L)"
    by (auto simp: cluster_integrals_def case_prod_beta bs_def L_def nC_def)
  have lenL: "length L = length t" by (simp add: L_def bs_def ndimage_label_length)
  have sup: "\<forall>j < length (map abs t). map (\<lambda>l. l = i + 1) L ! j \<longrightarrow> tCrit < map abs t ! j"
  proof (intro allI impI)
    fix j assume j: "j < length (map abs t)" and lab: "map (\<lambda>l. l = i + 1) L ! j"
    then have "L ! j \<noteq> 0" by (simp add: lenL)
    then have "bs ! j" using ndimage_label_nonzero_iff [of j bs] j by (simp add: L_def bs_def)
    then show "tCrit < map abs t ! j" using j by (simp add: bs_def)
  qed
  have "i + 1 \<in> set L" unfolding L_def using i unfolding nC_def by (rule ndimage_label_occurs)
  then have occ: "\<exists>j < length (map abs t). map (\<lambda>l. l = i + 1) L ! j"
    by (auto simp: in_set_conv_nth lenL)
  show ?thesis unfolding m
    by (rule cluster_integral_pos [OF _ sup occ]) (simp add: lenL)
qed

lemma py_max_Returns:
  assumes "ms \<noteq> []"
  shows "\<exists>v. py_max ms = Returns v \<and> v \<in> set ms \<and> (\<forall>m \<in> set ms. m \<le> v)"
proof -
  have fold_prop: "fold (\<lambda>item cur. if cur < item then item else cur) vs v \<in> insert v (set vs)
      \<and> (\<forall>m \<in> insert v (set vs). m \<le> fold (\<lambda>item cur. if cur < item then item else cur) vs v)"
    for vs and v :: real
  proof (induction vs arbitrary: v)
    case Nil
    then show ?case by simp
  next
    case (Cons a vs)
    show ?case
      using Cons.IH [of a] Cons.IH [of v] by (auto split: if_splits)
  qed
  from assms obtain v vs where "ms = v # vs" by (cases ms) auto
  then show ?thesis using fold_prop [of vs v] by (simp add: py_max_def)
qed

lemma py_max_eq_Max: "py_max ms = Returns v \<Longrightarrow> v = Max (set ms)"
proof -
  assume a: "py_max ms = Returns v"
  then have ne: "ms \<noteq> []" by (auto simp: py_max_def)
  from py_max_Returns [OF ne] a have "v \<in> set ms" "\<forall>m \<in> set ms. m \<le> v" by auto
  then show ?thesis by (intro Max_eqI [symmetric]) auto
qed

text \<open>The value appended to \<^verbatim>\<open>M\<close> for one permuted field.\<close>

lemma max_cluster_integral_cases:
  "(\<forall>v \<in> set t. \<not> tCrit < \<bar>v\<bar>) \<and> max_cluster_integral t tCrit = Returns 0
   \<or> (\<exists>v \<in> set t. tCrit < \<bar>v\<bar>)
      \<and> (\<exists>m. max_cluster_integral t tCrit = Returns m \<and> 0 < m
            \<and> m = Max (set (cluster_integrals t tCrit)))"
proof (cases "0 < snd (ndimage_label (map (\<lambda>v. tCrit < \<bar>v\<bar>) t))")
  case True
  then have ex: "\<exists>v \<in> set t. tCrit < \<bar>v\<bar>"
    by (auto simp: ndimage_label_count_pos_iff)
  have "cluster_integrals t tCrit \<noteq> []"
    using True length_cluster_integrals [of t tCrit] by auto
  from py_max_Returns [OF this] obtain m where m: "py_max (cluster_integrals t tCrit) = Returns m"
    "m \<in> set (cluster_integrals t tCrit)" by blast
  have "max_cluster_integral t tCrit = Returns m"
    using True m(1) by (simp add: max_cluster_integral_def case_prod_beta)
  moreover have "0 < m" using m(2) by (rule cluster_integrals_pos)
  moreover have "m = Max (set (cluster_integrals t tCrit))" using m(1) by (rule py_max_eq_Max)
  ultimately show ?thesis using ex by blast
next
  case False
  then have "\<forall>v \<in> set t. \<not> tCrit < \<bar>v\<bar>"
    using ndimage_label_count_pos_iff [of "map (\<lambda>v. tCrit < \<bar>v\<bar>) t"] by auto
  moreover have "max_cluster_integral t tCrit = Returns 0"
    using False by (simp add: max_cluster_integral_def case_prod_beta)
  ultimately show ?thesis by blast
qed

section \<open>The secondary distribution and the p values\<close>

lemma for_each_nth:
  assumes "for_each f xs = Returns ys"
  shows "length ys = length xs" and "k < length xs \<Longrightarrow> f (xs ! k) = Returns (ys ! k)"
  using assms by (auto simp: for_each_Returns_iff list_all2_conv_all_nth)

lemma for_each_total:
  "(\<And>a. a \<in> set xs \<Longrightarrow> \<exists>b. f a = Returns b) \<Longrightarrow> \<exists>ys. for_each f xs = Returns ys"
proof (induction xs)
  case Nil
  then show ?case by simp
next
  case (Cons a as)
  then obtain b bs where "f a = Returns b" "for_each f as = Returns bs"
    by (metis list.set_intros(1) list.set_intros(2))
  then show ?case by (simp add: bind_outcome_def)
qed

lemma secondary_pdf_nth:
  assumes "secondary_pdf w y LABELS c = Returns M" and "k < length LABELS"
  shows "\<exists>t. permuted_tstat w y (LABELS ! k) = Returns t \<and> max_cluster_integral t c = Returns (M ! k)"
  using for_each_nth(2) [OF assms [unfolded secondary_pdf_def]]
  by (simp add: bind_outcome_Returns_iff)

lemma length_secondary_pdf: "secondary_pdf w y LABELS c = Returns M \<Longrightarrow> length M = length LABELS"
  unfolding secondary_pdf_def by (rule for_each_nth(1))

lemma primary_pdf_nth:
  assumes "primary_pdf w y LABELS = Returns T" and "k < length LABELS"
  shows "\<exists>t. permuted_tstat w y (LABELS ! k) = Returns t \<and> np_max t = Returns (T ! k)"
  using for_each_nth(2) [OF assms [unfolded primary_pdf_def]]
  by (simp add: bind_outcome_Returns_iff)

text \<open>The second loop finishes whenever the first one did.\<close>

lemma secondary_pdf_total:
  assumes "primary_pdf w y LABELS = Returns T"
  shows "\<exists>M. secondary_pdf w y LABELS c = Returns M"
  unfolding secondary_pdf_def
proof (rule for_each_total)
  fix labels assume "labels \<in> set LABELS"
  then obtain k where k: "k < length LABELS" "labels = LABELS ! k"
    by (auto simp: in_set_conv_nth)
  from primary_pdf_nth [OF assms k(1)] obtain t where t: "permuted_tstat w y labels = Returns t"
    using k(2) by auto
  from max_cluster_integral_cases [of t c] obtain m where "max_cluster_integral t c = Returns m"
    by auto
  with t show "\<exists>b. bind_outcome (permuted_tstat w y labels) (\<lambda>t. max_cluster_integral t c) = Returns b"
    by (simp add: bind_outcome_def)
qed

lemma length_loc_M:
  assumes "ttest_locals x mu alpha = Returns s"
  shows "length (loc_M s) = 2 ^ ncols x"
  using length_secondary_pdf [OF ttest_locals_ReturnsD(7) [OF assms]]
    ttest_locals_ReturnsD(4) [OF assms] loc_n_ncols [OF assms]
  by (simp add: length_product01)

text \<open>
  C10. Every member of the secondary distribution \<^verbatim>\<open>M\<close> is non-negative: for the
  relabeling it belongs to, either no position of the permuted absolute statistic field
  exceeds \<^verbatim>\<open>tCrit\<close> and the member is the initial 0, or some position does and the member is
  the largest cluster integral of that field, which is positive.
\<close>

theorem secondary_distribution_nonneg:
  assumes "ttest_locals x mu alpha = Returns s"
  shows "length (loc_M s) = length (loc_LABELS s)
    \<and> (\<forall>k < length (loc_M s). 0 \<le> loc_M s ! k
        \<and> (\<exists>t. permuted_tstat (loc_w s) (loc_y s) (loc_LABELS s ! k) = Returns t
              \<and> ((\<forall>v \<in> set t. \<not> loc_tCrit s < \<bar>v\<bar>) \<and> loc_M s ! k = 0
                 \<or> (\<exists>v \<in> set t. loc_tCrit s < \<bar>v\<bar>) \<and> 0 < loc_M s ! k
                    \<and> loc_M s ! k = Max (set (cluster_integrals t (loc_tCrit s))))))"
proof -
  note sec = ttest_locals_ReturnsD(7) [OF assms]
  have len: "length (loc_M s) = length (loc_LABELS s)" using sec by (rule length_secondary_pdf)
  have "0 \<le> loc_M s ! k
        \<and> (\<exists>t. permuted_tstat (loc_w s) (loc_y s) (loc_LABELS s ! k) = Returns t
              \<and> ((\<forall>v \<in> set t. \<not> loc_tCrit s < \<bar>v\<bar>) \<and> loc_M s ! k = 0
                 \<or> (\<exists>v \<in> set t. loc_tCrit s < \<bar>v\<bar>) \<and> 0 < loc_M s ! k
                    \<and> loc_M s ! k = Max (set (cluster_integrals t (loc_tCrit s)))))"
    if k: "k < length (loc_M s)" for k
  proof -
    from secondary_pdf_nth [OF sec] k len obtain t
      where t: "permuted_tstat (loc_w s) (loc_y s) (loc_LABELS s ! k) = Returns t"
        and m: "max_cluster_integral t (loc_tCrit s) = Returns (loc_M s ! k)"
      by auto
    from max_cluster_integral_cases [of t "loc_tCrit s"] m
    have cases: "(\<forall>v \<in> set t. \<not> loc_tCrit s < \<bar>v\<bar>) \<and> loc_M s ! k = 0
                 \<or> (\<exists>v \<in> set t. loc_tCrit s < \<bar>v\<bar>) \<and> 0 < loc_M s ! k
                    \<and> loc_M s ! k = Max (set (cluster_integrals t (loc_tCrit s)))"
      by auto
    then have "0 \<le> loc_M s ! k" by auto
    with t cases show ?thesis by blast
  qed
  with len show ?thesis by blast
qed

theorem secondary_distribution_nonneg_witness:
  "ttest_locals example_x [0, 0] (1 / 20) = Returns example_locals
   \<and> loc_M example_locals = [3 / 8, 0, 0, 3 / 8]
   \<and> 0 \<le> loc_M example_locals ! 0 \<and> 0 \<le> loc_M example_locals ! 1"
proof -
  have l: "(0::nat) < length (loc_M example_locals)" "(1::nat) < length (loc_M example_locals)"
    by (simp_all add: example_locals_def)
  from secondary_distribution_nonneg [OF example_ttest_locals] l
  have "0 \<le> loc_M example_locals ! 0 \<and> 0 \<le> loc_M example_locals ! 1" by blast
  then show ?thesis using example_ttest_locals by (simp add: example_locals_def)
qed

lemma example2_y:
  "broadcast_sub (length example_x2) (np_transpose example_x2) [0, 0] = Returns (2, [[1, 3], [3, - 2]])"
  by (simp add: example_x2_def broadcast_sub_def np_transpose_def ncols_def)

lemma example2_t0: "tstat 2 [[1, 3], [3, - 2]] = Returns [2, 1 / 5]"
  by (simp add: tstat_pairs)

lemma example2_T:
  "primary_pdf 2 [[1, 3], [3, - 2]] (product01 (length [[1, 3], [3, - 2::real]]))
     = Returns [2, 5, 1 / 2, - (1 / 5)]"
  by (simp add: primary_pdf_def permuted_tstat_def sign_permute_def signs_of_def tstat_pairs
      bind_outcome_def np_max_def)

lemma example2_tCrit: "np_percentile [2, 5, 1 / 2, - (1 / 5)] (100 * (1 - 1 / 20)) = Returns (91 / 20)"
  by (simp add: np_percentile_def linear_interp_def)

lemma ttest_locals_ReturnsI:
  assumes "broadcast_sub (length x) (np_transpose x) mu = Returns (w, y)"
    and "tstat w y = Returns t0"
    and "primary_pdf w y (product01 (length y)) = Returns T"
    and "np_percentile T (100 * (1 - alpha)) = Returns tCrit"
    and "secondary_pdf w y (product01 (length y)) tCrit = Returns M"
  shows "ttest_locals x mu alpha =
     Returns \<lparr>loc_w = w, loc_y = y, loc_n = length y, loc_t0 = t0, loc_LABELS = product01 (length y),
              loc_T = T, loc_tCrit = tCrit, loc_M = M, loc_p = p_values M t0 tCrit\<rparr>"
  unfolding ttest_locals_def
  by (simp only: assms bind_outcome_def outcome.case prod.case Let_def)

lemma p_values_cases:
  "(\<exists>v \<in> set t0. c < \<bar>v\<bar>)
     \<and> p_values M t0 c
         = PList (map (\<lambda>m. max (frac_greater M m) (1 / real (length M))) (cluster_integrals t0 c))
     \<and> 0 < length (cluster_integrals t0 c)
   \<or> (\<forall>v \<in> set t0. \<not> c < \<bar>v\<bar>) \<and> p_values M t0 c = PNan"
proof (cases "0 < snd (ndimage_label (map (\<lambda>v. c < \<bar>v\<bar>) t0))")
  case True
  then have "\<exists>v \<in> set t0. c < \<bar>v\<bar>" by (auto simp: ndimage_label_count_pos_iff)
  moreover have "p_values M t0 c
         = PList (map (\<lambda>m. max (frac_greater M m) (1 / real (length M))) (cluster_integrals t0 c))"
    using True by (simp add: p_values_def case_prod_beta Let_def)
  moreover have "0 < length (cluster_integrals t0 c)"
    using True by (simp add: length_cluster_integrals)
  ultimately show ?thesis by blast
next
  case False
  then have "\<forall>v \<in> set t0. \<not> c < \<bar>v\<bar>"
    using ndimage_label_count_pos_iff [of "map (\<lambda>v. c < \<bar>v\<bar>) t0"] by auto
  moreover have "p_values M t0 c = PNan" using False by (simp add: p_values_def case_prod_beta)
  ultimately show ?thesis by blast
qed

text \<open>The integral listed for a maximal run of supra-threshold positions is that run's.\<close>

lemma cluster_integrals_of_run:
  assumes "map (\<lambda>v. c < \<bar>v\<bar>) t0 = pre @ replicate len True @ post"
    and "pre = [] \<or> \<not> last pre"
    and "post = [] \<or> \<not> hd post"
    and "0 < len"
  shows "snd (ndimage_label pre) < length (cluster_integrals t0 c)"
    and "cluster_integrals t0 c ! snd (ndimage_label pre)
       = cluster_integral (map abs t0) c
           (replicate (length pre) False @ replicate len True @ replicate (length post) False)"
proof -
  note m = ndimage_label_run_mask [OF assms(2,3,4)]
  show lt: "snd (ndimage_label pre) < length (cluster_integrals t0 c)"
    using m(2) by (simp add: length_cluster_integrals assms(1))
  then have lt': "snd (ndimage_label pre) < snd (ndimage_label (map (\<lambda>v. c < \<bar>v\<bar>) t0))"
    by (simp add: length_cluster_integrals)
  have "cluster_integrals t0 c ! snd (ndimage_label pre)
      = cluster_integral (map abs t0) c
          (map (\<lambda>l. l = snd (ndimage_label pre) + 1) (fst (ndimage_label (map (\<lambda>v. c < \<bar>v\<bar>) t0))))"
    using lt' by (simp add: cluster_integrals_def case_prod_beta)
  then show "cluster_integrals t0 c ! snd (ndimage_label pre)
       = cluster_integral (map abs t0) c
           (replicate (length pre) False @ replicate len True @ replicate (length post) False)"
    by (simp only: assms(1) m(1))
qed

text \<open>
  C4. A run of \<^verbatim>\<open>ttest_nonparametric\<close> that reaches its \<^verbatim>\<open>return\<close> statement returns
  \<open>(t0, tCrit, p)\<close>; its secondary distribution \<open>M\<close> has \<open>2 ^ n\<close> members. If some position
  of \<open>\<bar>t0\<bar>\<close> exceeds \<open>tCrit\<close>, there is at least one cluster and \<open>p\<close> is the list holding,
  for each cluster in left-to-right order, the fraction of the members of \<open>M\<close> strictly
  greater than the cluster's integral, raised to \<open>1 / size(M)\<close> where it is smaller; each of
  these p values is at least \<open>1 / 2 ^ n\<close> and positive; and every maximal supra-threshold
  run of \<open>\<bar>t0\<bar>\<close> is one of the clusters, listed with its own integral. If no position
  exceeds \<open>tCrit\<close>, no p value is reported.
\<close>

theorem p_value_floor:
  assumes "ttest_locals x mu alpha = Returns s"
  shows "let t0 = loc_t0 s; tCrit = loc_tCrit s; M = loc_M s;
             m0 = cluster_integrals t0 tCrit;
             pval = (\<lambda>i. max (real (card {k. k < length M \<and> m0 ! i < M ! k}) / real (length M))
                             (1 / real (length M)))
         in ttest_nonparametric x mu alpha = Returns (t0, tCrit, loc_p s)
          \<and> length M = 2 ^ ncols x
          \<and> length m0 = snd (ndimage_label (map (\<lambda>v. tCrit < \<bar>v\<bar>) t0))
          \<and> ((\<exists>v \<in> set t0. tCrit < \<bar>v\<bar>) \<longrightarrow>
                0 < length m0
                \<and> loc_p s = PList (map pval [0..<length m0])
                \<and> (\<forall>i < length m0. 1 / 2 ^ ncols x \<le> pval i \<and> 0 < pval i)
                \<and> (\<forall>pre len post.
                      map (\<lambda>v. tCrit < \<bar>v\<bar>) t0 = pre @ replicate len True @ post
                      \<and> (pre = [] \<or> \<not> last pre) \<and> (post = [] \<or> \<not> hd post) \<and> 0 < len \<longrightarrow>
                      snd (ndimage_label pre) < length m0
                      \<and> m0 ! snd (ndimage_label pre)
                          = cluster_integral (map abs t0) tCrit
                              (replicate (length pre) False @ replicate len True
                                 @ replicate (length post) False)))
          \<and> ((\<forall>v \<in> set t0. \<not> tCrit < \<bar>v\<bar>) \<longrightarrow> loc_p s = PNan)"
proof -
  define t0 where "t0 = loc_t0 s"
  define tCrit where "tCrit = loc_tCrit s"
  define M where "M = loc_M s"
  define m0 where "m0 = cluster_integrals t0 tCrit"
  define pval where "pval = (\<lambda>i. max (real (card {k. k < length M \<and> m0 ! i < M ! k}) / real (length M))
                             (1 / real (length M)))"
  have ret: "ttest_nonparametric x mu alpha = Returns (t0, tCrit, loc_p s)"
    by (simp add: ttest_nonparametric_def assms bind_outcome_def t0_def tCrit_def)
  have lenM: "length M = 2 ^ ncols x" unfolding M_def by (rule length_loc_M [OF assms])
  have nC: "length m0 = snd (ndimage_label (map (\<lambda>v. tCrit < \<bar>v\<bar>) t0))"
    by (simp add: m0_def length_cluster_integrals)
  have p: "loc_p s = p_values M t0 tCrit"
    using ttest_locals_ReturnsD(8) [OF assms] by (simp add: M_def t0_def tCrit_def)
  have frac: "frac_greater M m = real (card {k. k < length M \<and> m < M ! k}) / real (length M)" for m
    by (simp add: frac_greater_def length_filter_conv_card)
  have maps: "map (\<lambda>m. max (frac_greater M m) (1 / real (length M))) m0 = map pval [0..<length m0]"
    by (rule nth_equalityI) (simp_all add: pval_def frac)
  have bounds: "\<forall>i < length m0. 1 / 2 ^ ncols x \<le> pval i \<and> 0 < pval i"
  proof (intro allI impI)
    fix i
    have c: "1 / real (length M) = 1 / 2 ^ ncols x" by (simp add: lenM)
    have d: "(0::real) < 1 / 2 ^ ncols x" by simp
    have "1 / 2 ^ ncols x \<le> pval i" unfolding pval_def c by simp
    with d show "1 / 2 ^ ncols x \<le> pval i \<and> 0 < pval i" by linarith
  qed
  have runs: "\<forall>pre len post.
      map (\<lambda>v. tCrit < \<bar>v\<bar>) t0 = pre @ replicate len True @ post
      \<and> (pre = [] \<or> \<not> last pre) \<and> (post = [] \<or> \<not> hd post) \<and> 0 < len \<longrightarrow>
      snd (ndimage_label pre) < length m0
      \<and> m0 ! snd (ndimage_label pre)
          = cluster_integral (map abs t0) tCrit
              (replicate (length pre) False @ replicate len True @ replicate (length post) False)"
  proof (intro allI impI)
    fix pre len post
    assume h: "map (\<lambda>v. tCrit < \<bar>v\<bar>) t0 = pre @ replicate len True @ post
      \<and> (pre = [] \<or> \<not> last pre) \<and> (post = [] \<or> \<not> hd post) \<and> 0 < len"
    then have a: "map (\<lambda>v. tCrit < \<bar>v\<bar>) t0 = pre @ replicate len True @ post"
      and b: "pre = [] \<or> \<not> last pre" and c: "post = [] \<or> \<not> hd post" and d: "0 < len"
      by blast+
    from cluster_integrals_of_run [OF a b c d]
    show "snd (ndimage_label pre) < length m0
      \<and> m0 ! snd (ndimage_label pre)
          = cluster_integral (map abs t0) tCrit
              (replicate (length pre) False @ replicate len True @ replicate (length post) False)"
      by (simp add: m0_def)
  qed
  have surv: "(\<exists>v \<in> set t0. tCrit < \<bar>v\<bar>) \<longrightarrow>
                0 < length m0
                \<and> loc_p s = PList (map pval [0..<length m0])
                \<and> (\<forall>i < length m0. 1 / 2 ^ ncols x \<le> pval i \<and> 0 < pval i)
                \<and> (\<forall>pre len post.
                      map (\<lambda>v. tCrit < \<bar>v\<bar>) t0 = pre @ replicate len True @ post
                      \<and> (pre = [] \<or> \<not> last pre) \<and> (post = [] \<or> \<not> hd post) \<and> 0 < len \<longrightarrow>
                      snd (ndimage_label pre) < length m0
                      \<and> m0 ! snd (ndimage_label pre)
                          = cluster_integral (map abs t0) tCrit
                              (replicate (length pre) False @ replicate len True
                                 @ replicate (length post) False))"
  proof (rule impI)
    assume ex: "\<exists>v \<in> set t0. tCrit < \<bar>v\<bar>"
    from p_values_cases [of t0 tCrit M] ex
    have pl: "loc_p s = PList (map (\<lambda>m. max (frac_greater M m) (1 / real (length M))) m0)"
      and pos: "0 < length m0"
      by (auto simp: p m0_def)
    from pl have pl': "loc_p s = PList (map pval [0..<length m0])" by (simp only: maps)
    show "0 < length m0
                \<and> loc_p s = PList (map pval [0..<length m0])
                \<and> (\<forall>i < length m0. 1 / 2 ^ ncols x \<le> pval i \<and> 0 < pval i)
                \<and> (\<forall>pre len post.
                      map (\<lambda>v. tCrit < \<bar>v\<bar>) t0 = pre @ replicate len True @ post
                      \<and> (pre = [] \<or> \<not> last pre) \<and> (post = [] \<or> \<not> hd post) \<and> 0 < len \<longrightarrow>
                      snd (ndimage_label pre) < length m0
                      \<and> m0 ! snd (ndimage_label pre)
                          = cluster_integral (map abs t0) tCrit
                              (replicate (length pre) False @ replicate len True
                                 @ replicate (length post) False))"
      by (intro conjI pos pl' bounds runs)
  qed
  have none: "(\<forall>v \<in> set t0. \<not> tCrit < \<bar>v\<bar>) \<longrightarrow> loc_p s = PNan"
    using p_values_cases [of t0 tCrit M] by (auto simp: p)
  have "ttest_nonparametric x mu alpha = Returns (t0, tCrit, loc_p s)
          \<and> length M = 2 ^ ncols x
          \<and> length m0 = snd (ndimage_label (map (\<lambda>v. tCrit < \<bar>v\<bar>) t0))
          \<and> ((\<exists>v \<in> set t0. tCrit < \<bar>v\<bar>) \<longrightarrow>
                0 < length m0
                \<and> loc_p s = PList (map pval [0..<length m0])
                \<and> (\<forall>i < length m0. 1 / 2 ^ ncols x \<le> pval i \<and> 0 < pval i)
                \<and> (\<forall>pre len post.
                      map (\<lambda>v. tCrit < \<bar>v\<bar>) t0 = pre @ replicate len True @ post
                      \<and> (pre = [] \<or> \<not> last pre) \<and> (post = [] \<or> \<not> hd post) \<and> 0 < len \<longrightarrow>
                      snd (ndimage_label pre) < length m0
                      \<and> m0 ! snd (ndimage_label pre)
                          = cluster_integral (map abs t0) tCrit
                              (replicate (length pre) False @ replicate len True
                                 @ replicate (length post) False)))
          \<and> ((\<forall>v \<in> set t0. \<not> tCrit < \<bar>v\<bar>) \<longrightarrow> loc_p s = PNan)"
    by (intro conjI ret lenM nC surv none)
  then show ?thesis
    unfolding Let_def t0_def tCrit_def M_def m0_def pval_def .
qed

theorem p_value_floor_witness:
  "ttest_locals example_x [0, 0] (1 / 20) = Returns example_locals
   \<and> ttest_nonparametric example_x [0, 0] (1 / 20) = Returns ([2, 3], 21 / 8, PList [1 / 4])
   \<and> 21 / 8 < \<bar>3 :: real\<bar> \<and> ncols example_x = 2
   \<and> length (cluster_integrals [2, 3] (21 / 8)) = 1
   \<and> 1 / 2 ^ ncols example_x \<le> (1 / 4 :: real) \<and> 0 < (1 / 4 :: real)"
proof -
  have n: "ncols example_x = 2" by (simp add: ncols_def example_x_def)
  have ex: "\<exists>v \<in> set (loc_t0 example_locals). loc_tCrit example_locals < \<bar>v\<bar>"
    by (simp add: example_locals_def)
  have len: "length (cluster_integrals (loc_t0 example_locals) (loc_tCrit example_locals)) = 1"
    by (simp add: example_locals_def length_cluster_integrals ndimage_label_def)
  note th = p_value_floor [OF example_ttest_locals, unfolded Let_def]
  note ret = th [THEN conjunct1]
  note surv = th [THEN conjunct2, THEN conjunct2, THEN conjunct2, THEN conjunct1, THEN mp, OF ex]
  note pl = surv [THEN conjunct2, THEN conjunct1, unfolded len]
  note bnd = surv [THEN conjunct2, THEN conjunct2, THEN conjunct1, unfolded len, rule_format, of 0]
  have "[0..<1] = [0::nat]" by simp
  with pl have "PList [1 / 4] = PList [max (real (card {k. k < length (loc_M example_locals)
        \<and> cluster_integrals (loc_t0 example_locals) (loc_tCrit example_locals) ! 0
            < loc_M example_locals ! k}) / real (length (loc_M example_locals)))
      (1 / real (length (loc_M example_locals)))]"
    by (simp add: example_locals_def)
  then have v: "max (real (card {k. k < length (loc_M example_locals)
        \<and> cluster_integrals (loc_t0 example_locals) (loc_tCrit example_locals) ! 0
            < loc_M example_locals ! k}) / real (length (loc_M example_locals)))
      (1 / real (length (loc_M example_locals))) = 1 / 4"
    by simp
  from bnd have "1 / 2 ^ ncols example_x \<le> (1 / 4 :: real) \<and> 0 < (1 / 4 :: real)"
    unfolding v by simp
  moreover from ret have "ttest_nonparametric example_x [0, 0] (1 / 20) = Returns ([2, 3], 21 / 8, PList [1 / 4])"
    by (simp add: example_locals_def)
  moreover from len have "length (cluster_integrals [2, 3] (21 / 8)) = 1"
    by (simp add: example_locals_def)
  ultimately show ?thesis using example_ttest_locals n by simp
qed

text \<open>
  C6. If the statistic field and the critical threshold have been computed and no position
  of the absolute statistic field exceeds the threshold, \<^verbatim>\<open>ttest_nonparametric\<close> returns
  normally, and the third component of its result is the \<^verbatim>\<open>np.nan\<close> marker, not a list of p
  values.
\<close>

theorem no_cluster_result:
  assumes "broadcast_sub (length x) (np_transpose x) mu = Returns (w, y)"
    and "tstat w y = Returns t0"
    and "primary_pdf w y (product01 (length y)) = Returns T"
    and "np_percentile T (100 * (1 - alpha)) = Returns tCrit"
    and "\<forall>v \<in> set t0. \<not> tCrit < \<bar>v\<bar>"
  shows "ttest_nonparametric x mu alpha = Returns (t0, tCrit, PNan)"
proof -
  from secondary_pdf_total [OF assms(3)] obtain M
    where M: "secondary_pdf w y (product01 (length y)) tCrit = Returns M" by blast
  have "\<not> 0 < snd (ndimage_label (map (\<lambda>v. tCrit < \<bar>v\<bar>) t0))"
    using assms(5) by (auto simp: ndimage_label_count_pos_iff)
  then have p: "p_values M t0 tCrit = PNan"
    by (simp add: p_values_def case_prod_beta)
  show ?thesis
    unfolding ttest_nonparametric_def ttest_locals_ReturnsI [OF assms(1-4) M]
    by (simp add: bind_outcome_def p)
qed

theorem no_cluster_result_witness:
  "broadcast_sub (length example_x2) (np_transpose example_x2) [0, 0] = Returns (2, [[1, 3], [3, - 2]])
   \<and> tstat 2 [[1, 3], [3, - 2]] = Returns [2, 1 / 5]
   \<and> primary_pdf 2 [[1, 3], [3, - 2]] (product01 (length [[1, 3], [3, - 2::real]]))
       = Returns [2, 5, 1 / 2, - (1 / 5)]
   \<and> np_percentile [2, 5, 1 / 2, - (1 / 5)] (100 * (1 - 1 / 20)) = Returns (91 / 20)
   \<and> \<not> 91 / 20 < \<bar>2 :: real\<bar> \<and> \<not> 91 / 20 < \<bar>1 / 5 :: real\<bar>
   \<and> ttest_nonparametric example_x2 [0, 0] (1 / 20) = Returns ([2, 1 / 5], 91 / 20, PNan)"
proof -
  have none: "\<forall>v \<in> set [2, 1 / 5 :: real]. \<not> 91 / 20 < \<bar>v\<bar>" by simp
  from no_cluster_result [OF example2_y example2_t0 example2_T example2_tCrit none]
  show ?thesis using example2_y example2_t0 example2_T example2_tCrit by simp
qed

section \<open>The primary distribution\<close>

lemma np_max_Returns:
  assumes "np_max t = Returns v"
  shows "t \<noteq> [] \<and> v = Max (set t)"
proof (cases t)
  case Nil
  with assms show ?thesis by (simp add: np_max_def)
next
  case (Cons a as)
  with assms have "v = fold max as a" by (simp add: np_max_def)
  then have "v = Max (set (a # as))" by (simp only: Max.set_eq_fold)
  then show ?thesis by (simp add: Cons)
qed

lemma example_T_max_abs:
  "primary_pdf_max_abs 2 [[1, 2], [3, 4]] [[0, 0], [0, 1], [1, 0], [1, 1]] = Returns [3, 1 / 2, 1 / 2, 3]"
  by (simp add: primary_pdf_max_abs_def permuted_tstat_def sign_permute_def signs_of_def tstat_pairs
      bind_outcome_def np_max_def)

text \<open>
  C1, as stated, fails: in the worked example the relabelings \<open>(0,1)\<close> and \<open>(1,1)\<close> have the
  permuted fields \<open>[-1/2, -1/3]\<close> and \<open>[-2, -3]\<close>; the code records their maxima \<open>-1/3\<close> and
  \<open>-2\<close>, not the maximum absolute values \<open>1/2\<close> and \<open>3\<close>.
\<close>

theorem primary_distribution_not_max_abs:
  "ttest_locals example_x [0, 0] (1 / 20) = Returns example_locals
   \<and> loc_T example_locals = [3, - (1 / 3), 1 / 2, - 2]
   \<and> primary_pdf_max_abs (loc_w example_locals) (loc_y example_locals) (loc_LABELS example_locals)
       = Returns [3, 1 / 2, 1 / 2, 3]
   \<and> primary_pdf_max_abs (loc_w example_locals) (loc_y example_locals) (loc_LABELS example_locals)
       \<noteq> Returns (loc_T example_locals)"
  using example_ttest_locals example_T_max_abs by (simp add: example_locals_def)

text \<open>
  C1, amended. For every relabeling enumerated, the primary distribution \<^verbatim>\<open>T\<close> holds the
  (signed) maximum of the sign-permuted statistic field across the domain positions.
\<close>

theorem primary_distribution_signed_max:
  assumes "ttest_locals x mu alpha = Returns s"
  shows "length (loc_T s) = length (loc_LABELS s)
    \<and> (\<forall>k < length (loc_LABELS s).
          \<exists>t. permuted_tstat (loc_w s) (loc_y s) (loc_LABELS s ! k) = Returns t
             \<and> t \<noteq> [] \<and> loc_T s ! k = Max (set t))"
proof -
  note pr = ttest_locals_ReturnsD(5) [OF assms]
  have "\<exists>t. permuted_tstat (loc_w s) (loc_y s) (loc_LABELS s ! k) = Returns t
             \<and> t \<noteq> [] \<and> loc_T s ! k = Max (set t)" if "k < length (loc_LABELS s)" for k
    using primary_pdf_nth [OF pr that] np_max_Returns by blast
  then show ?thesis using length_primary_pdf [OF pr] by blast
qed

theorem primary_distribution_signed_max_witness:
  "ttest_locals example_x [0, 0] (1 / 20) = Returns example_locals
   \<and> permuted_tstat (loc_w example_locals) (loc_y example_locals) (loc_LABELS example_locals ! 3)
       = Returns [- 2, - 3]
   \<and> loc_T example_locals ! 3 = Max (set [- 2, - 3]) \<and> loc_T example_locals ! 3 = - 2"
proof -
  have k: "3 < length (loc_LABELS example_locals)" by (simp add: example_locals_def)
  have t: "permuted_tstat (loc_w example_locals) (loc_y example_locals) (loc_LABELS example_locals ! 3)
       = Returns [- 2, - 3]"
    by (simp add: example_locals_def permuted_tstat_def sign_permute_def signs_of_def tstat_pairs)
  from primary_distribution_signed_max [OF example_ttest_locals] k t
  have "loc_T example_locals ! 3 = Max (set [- 2, - 3])" by fastforce
  then show ?thesis using example_ttest_locals t by (simp add: example_locals_def)
qed

section \<open>The statistic field\<close>

lemma those_nth:
  "those xs = Some ys \<Longrightarrow> length ys = length xs \<and> (\<forall>i < length xs. xs ! i = Some (ys ! i))"
proof (induction xs arbitrary: ys)
  case Nil
  then show ?case by simp
next
  case (Cons a as)
  then obtain b bs where b: "a = Some b" "those as = Some bs" "ys = b # bs"
    by (auto split: option.splits)
  from Cons.IH [OF b(2)] show ?case by (auto simp: b nth_Cons split: nat.split)
qed

lemma tstat_nth:
  assumes "tstat w y = Returns t"
  shows "length t = w" and "j < w \<Longrightarrow> tstat_at (column y j) = Some (t ! j)"
proof -
  from assms have th: "those (map (\<lambda>j. tstat_at (column y j)) [0..<w]) = Some t"
    by (auto simp: tstat_def split: option.splits)
  from those_nth [OF th] show "length t = w" by simp
  from those_nth [OF th] show "j < w \<Longrightarrow> tstat_at (column y j) = Some (t ! j)" by auto
qed


lemma ncols_rect: "x \<noteq> [] \<Longrightarrow> \<forall>r \<in> set x. length r = n \<Longrightarrow> ncols x = n"
  by (cases x) (simp_all add: ncols_def)




section \<open>Shapes and the number of observations\<close>

lemma those_None_hd: "xs \<noteq> [] \<Longrightarrow> hd xs = None \<Longrightarrow> those xs = None"
  by (cases xs) simp_all

lemma tstat_at_short: "length c < 2 \<Longrightarrow> tstat_at c = None"
  by (simp add: tstat_at_def np_std_ddof1_def np_mean_def split: option.splits)

lemma tstat_few_rows:
  assumes "length y < 2" and "0 < w"
  shows "tstat w y = NonFinite"
proof -
  have "hd (map (\<lambda>j. tstat_at (column y j)) [0..<w]) = tstat_at (column y 0)"
    using assms(2) by (simp add: hd_map upt_conv_Cons)
  also have "\<dots> = None" using assms(1) by (intro tstat_at_short) (simp add: column_def)
  finally have "those (map (\<lambda>j. tstat_at (column y j)) [0..<w]) = None"
    using assms(2) by (intro those_None_hd) simp_all
  then show ?thesis by (simp add: tstat_def)
qed

text \<open>
  C7, as stated, fails. A datum of length 1 against a field of two positions is broadcast,
  not rejected, and the test runs to its end; and a single observation raises nothing: the
  statistic's division by zero is a non-finite float, not an exception. No typed validation
  error exists in the code.
\<close>

theorem no_validation_errors:
  "length [0 :: real] \<noteq> length example_x
   \<and> ttest_nonparametric example_x [0] (1 / 20) = Returns ([2, 3], 21 / 8, PList [1 / 4])
   \<and> ncols [[1], [2]] < 2
   \<and> ttest_nonparametric [[1], [2]] [0, 0] (1 / 20) = NonFinite"
proof -
  have y: "broadcast_sub (length example_x) (np_transpose example_x) [0] = Returns (2, [[1, 2], [3, 4]])"
    by (simp add: example_x_def broadcast_sub_def np_transpose_def ncols_def)
  have n: "length [[1, 2], [3, 4::real]] = 2" by simp
  have "ttest_locals example_x [0] (1 / 20) = Returns example_locals"
    unfolding ttest_locals_def y
    by (simp only: bind_outcome_def outcome.case prod.case Let_def n example_t0 product01_2
        example_T example_locals_def)
      (simp add: example_tCrit example_M example_p)
  then have a: "ttest_nonparametric example_x [0] (1 / 20) = Returns ([2, 3], 21 / 8, PList [1 / 4])"
    by (simp add: ttest_nonparametric_def bind_outcome_def example_locals_def)
  have y1: "broadcast_sub (length [[1], [2::real]]) (np_transpose [[1], [2]]) [0, 0] = Returns (2, [[1, 2]])"
    by (simp add: broadcast_sub_def np_transpose_def ncols_def)
  have "tstat 2 [[1, 2]] = NonFinite" by (rule tstat_few_rows) simp_all
  then have b: "ttest_nonparametric [[1], [2]] [0, 0] (1 / 20) = NonFinite"
    unfolding ttest_nonparametric_def ttest_locals_def y1
    by (simp add: bind_outcome_def)
  show ?thesis using a b by (simp add: example_x_def ncols_def)
qed

text \<open>
  C7, amended. \<^verbatim>\<open>ttest_nonparametric\<close> validates nothing itself. When the datum's length
  differs from the number of domain positions and neither of the two is 1, its first
  statement \<^verbatim>\<open>x.T - mu\<close> raises NumPy's \<^verbatim>\<open>ValueError\<close>, before any relabeling is enumerated;
  in every other case that statement raises nothing (a length of 1 is broadcast). With
  fewer than 2 observations of a field with matching datum, no exception is raised: the
  statistic is not finite.
\<close>

theorem shape_mismatch_and_few_observations:
  "(length mu \<noteq> length x \<and> length mu \<noteq> 1 \<and> length x \<noteq> 1 \<longrightarrow>
      broadcast_sub (length x) (np_transpose x) mu = Raises ValueError
      \<and> ttest_nonparametric x mu alpha = Raises ValueError)
   \<and> (length mu = length x \<or> length mu = 1 \<or> length x = 1 \<longrightarrow>
      (\<exists>w y. broadcast_sub (length x) (np_transpose x) mu = Returns (w, y)))
   \<and> (x \<noteq> [] \<and> length mu = length x \<and> ncols x < 2 \<longrightarrow>
      ttest_nonparametric x mu alpha = NonFinite)"
proof (intro conjI impI)
  assume a: "length mu \<noteq> length x \<and> length mu \<noteq> 1 \<and> length x \<noteq> 1"
  then show r: "broadcast_sub (length x) (np_transpose x) mu = Raises ValueError"
    by (auto simp: broadcast_sub_def)
  then show "ttest_nonparametric x mu alpha = Raises ValueError"
    by (simp add: ttest_nonparametric_def ttest_locals_def bind_outcome_def)
next
  assume "length mu = length x \<or> length mu = 1 \<or> length x = 1"
  then show "\<exists>w y. broadcast_sub (length x) (np_transpose x) mu = Returns (w, y)"
    by (auto simp: broadcast_sub_def)
next
  assume a: "x \<noteq> [] \<and> length mu = length x \<and> ncols x < 2"
  then have y: "broadcast_sub (length x) (np_transpose x) mu
      = Returns (length x, map (\<lambda>row. map2 (-) row mu) (np_transpose x))"
    by (simp add: broadcast_sub_def)
  have "tstat (length x) (map (\<lambda>row. map2 (-) row mu) (np_transpose x)) = NonFinite"
    using a by (intro tstat_few_rows) (simp_all add: length_np_transpose)
  then show "ttest_nonparametric x mu alpha = NonFinite"
    unfolding ttest_nonparametric_def ttest_locals_def y
    by (simp add: bind_outcome_def)
qed

theorem shape_mismatch_and_few_observations_witness:
  "length [0, 0 :: real] \<noteq> length [[1, 3], [2, 4], [5, 6 :: real]] \<and> length [0, 0 :: real] \<noteq> 1
   \<and> length [[1, 3], [2, 4], [5, 6 :: real]] \<noteq> 1
   \<and> ttest_nonparametric [[1, 3], [2, 4], [5, 6]] [0, 0] (1 / 20) = Raises ValueError"
  using shape_mismatch_and_few_observations [of "[0, 0]" "[[1, 3], [2, 4], [5, 6]]" "1 / 20"]
  by simp

section \<open>The percentile\<close>

lemma linear_interp_facts:
  assumes s: "sorted s" and ne: "s \<noteq> []" and h0: "0 \<le> h" and h1: "h \<le> real (length s - 1)"
  shows "nat \<lfloor>h\<rfloor> \<le> length s - 1"
    and "s ! nat \<lfloor>h\<rfloor> \<le> linear_interp s h"
    and "linear_interp s h \<le> s ! min (nat \<lfloor>h\<rfloor> + 1) (length s - 1)"
proof -
  define lo where "lo = nat \<lfloor>h\<rfloor>"
  define hi where "hi = min (lo + 1) (length s - 1)"
  define w where "w = h - real lo"
  have lo_le_h: "real lo \<le> h" using h0 by (simp add: lo_def)
  have h_lt: "h < real lo + 1" using h0 unfolding lo_def by linarith
  have w0: "0 \<le> w" and w1: "w < 1" using lo_le_h h_lt by (simp_all add: w_def)
  have "real lo \<le> real (length s - 1)" using lo_le_h h1 by linarith
  then show lo: "nat \<lfloor>h\<rfloor> \<le> length s - 1" by (simp add: lo_def)
  have lohi: "lo \<le> hi" using lo by (simp add: hi_def lo_def)
  have hilen: "hi < length s" using ne by (cases s) (auto simp: hi_def)
  have mono: "s ! lo \<le> s ! hi" using s lohi hilen by (rule sorted_nth_mono)
  have eq: "linear_interp s h = s ! lo * (1 - w) + s ! hi * w"
    by (simp add: linear_interp_def Let_def lo_def hi_def w_def)
  have "s ! lo * (1 - w) + s ! hi * w = s ! lo + w * (s ! hi - s ! lo)" by (simp add: algebra_simps)
  moreover have "0 \<le> w * (s ! hi - s ! lo)" using w0 mono by simp
  ultimately show "s ! nat \<lfloor>h\<rfloor> \<le> linear_interp s h" unfolding eq lo_def [symmetric] by linarith
  have "s ! lo * (1 - w) + s ! hi * w = s ! hi - (1 - w) * (s ! hi - s ! lo)" by (simp add: algebra_simps)
  moreover have "0 \<le> (1 - w) * (s ! hi - s ! lo)" using w1 mono by simp
  ultimately show "linear_interp s h \<le> s ! min (nat \<lfloor>h\<rfloor> + 1) (length s - 1)"
    unfolding eq hi_def [symmetric] lo_def [symmetric] hi_def [symmetric] by linarith
qed

lemma linear_interp_mono:
  assumes s: "sorted s" and ne: "s \<noteq> []"
    and h0: "0 \<le> h1" and h12: "h1 \<le> h2" and hN: "h2 \<le> real (length s - 1)"
  shows "linear_interp s h1 \<le> linear_interp s h2"
proof -
  define lo1 where "lo1 = nat \<lfloor>h1\<rfloor>"
  define lo2 where "lo2 = nat \<lfloor>h2\<rfloor>"
  have h20: "0 \<le> h2" and h1N: "h1 \<le> real (length s - 1)" using h0 h12 hN by linarith+
  note f1 = linear_interp_facts [OF s ne h0 h1N]
  note f2 = linear_interp_facts [OF s ne h20 hN]
  have lo12: "lo1 \<le> lo2" unfolding lo1_def lo2_def using h12 by (intro nat_mono floor_mono)
  show ?thesis
  proof (cases "lo1 = lo2")
    case True
    define hi where "hi = min (lo1 + 1) (length s - 1)"
    have hilen: "hi < length s" using ne by (cases s) (auto simp: hi_def)
    have "lo1 \<le> hi" using f1(1) by (simp add: hi_def lo1_def)
    then have mono: "s ! lo1 \<le> s ! hi" using s hilen sorted_nth_mono by blast
    have e1: "linear_interp s h1 = s ! lo1 + (h1 - real lo1) * (s ! hi - s ! lo1)"
      by (simp add: linear_interp_def Let_def lo1_def hi_def algebra_simps)
    have e2: "linear_interp s h2 = s ! lo1 + (h2 - real lo1) * (s ! hi - s ! lo1)"
      using True by (simp add: linear_interp_def Let_def lo1_def lo2_def hi_def algebra_simps)
    have "(h1 - real lo1) * (s ! hi - s ! lo1) \<le> (h2 - real lo1) * (s ! hi - s ! lo1)"
      using h12 mono by (intro mult_right_mono) simp_all
    then show ?thesis unfolding e1 e2 by simp
  next
    case False
    with lo12 have lt: "lo1 + 1 \<le> lo2" by simp
    have lo2N: "lo2 \<le> length s - 1" using f2(1) by (simp add: lo2_def)
    have "min (lo1 + 1) (length s - 1) \<le> lo2" using lt by simp
    moreover have "lo2 < length s" using lo2N ne by (cases s) simp_all
    ultimately have "s ! min (lo1 + 1) (length s - 1) \<le> s ! lo2"
      using s sorted_nth_mono by blast
    with f1(3) f2(2) show ?thesis unfolding lo1_def lo2_def by linarith
  qed
qed

lemma np_percentile_Returns:
  assumes "np_percentile a q = Returns c"
  shows "0 \<le> q" and "q \<le> 100" and "a \<noteq> []"
    and "c = linear_interp (sort a) (q / 100 * real (length a - 1))"
  using assms by (auto simp: np_percentile_def split: if_splits)

lemma np_percentile_index_range:
  assumes "0 \<le> q" and "q \<le> 100"
  shows "0 \<le> q / 100 * real N" and "q / 100 * real N \<le> real N"
proof -
  show "0 \<le> q / 100 * real N" using assms(1) by simp
  have "q / 100 \<le> 1" using assms(2) by simp
  then have "q / 100 * real N \<le> 1 * real N" by (intro mult_right_mono) simp_all
  then show "q / 100 * real N \<le> real N" by simp
qed

lemma np_percentile_mono:
  assumes "np_percentile a q1 = Returns c1" and "np_percentile a q2 = Returns c2" and "q1 \<le> q2"
  shows "c1 \<le> c2"
proof -
  note r1 = np_percentile_Returns [OF assms(1)]
  note r2 = np_percentile_Returns [OF assms(2)]
  have ne: "sort a \<noteq> []" using r1(3) by (metis length_sort length_0_conv)
  have len: "length (sort a) = length a" by simp
  have "q1 / 100 * real (length a - 1) \<le> q2 / 100 * real (length a - 1)"
    using assms(3) by (intro mult_right_mono) simp_all
  moreover have "0 \<le> q1 / 100 * real (length a - 1)"
    using np_percentile_index_range(1) [OF r1(1,2)] .
  moreover have "q2 / 100 * real (length a - 1) \<le> real (length (sort a) - 1)"
    unfolding len using np_percentile_index_range(2) [OF r2(1,2)] .
  ultimately have "linear_interp (sort a) (q1 / 100 * real (length a - 1))
      \<le> linear_interp (sort a) (q2 / 100 * real (length a - 1))"
    by (intro linear_interp_mono [OF sorted_sort ne])
  then show ?thesis using r1(4) r2(4) by simp
qed

text \<open>
  C9. For fixed observations and datum, raising \<^verbatim>\<open>alpha\<close> never raises the critical
  threshold: both runs build the same primary distribution, and its
  \<open>100*(1-alpha)\<close>-th linear-interpolation percentile does not increase with \<^verbatim>\<open>alpha\<close>.
\<close>

theorem threshold_antimono_in_alpha:
  assumes "ttest_nonparametric x mu alpha1 = Returns (t1, tCrit1, p1)"
    and "ttest_nonparametric x mu alpha2 = Returns (t2, tCrit2, p2)"
    and "alpha1 \<le> alpha2"
  shows "tCrit2 \<le> tCrit1"
proof -
  from assms(1) obtain s1 where s1: "ttest_locals x mu alpha1 = Returns s1" "tCrit1 = loc_tCrit s1"
    by (auto simp: ttest_nonparametric_Returns_iff)
  from assms(2) obtain s2 where s2: "ttest_locals x mu alpha2 = Returns s2" "tCrit2 = loc_tCrit s2"
    by (auto simp: ttest_nonparametric_Returns_iff)
  have "Returns (loc_w s1, loc_y s1) = Returns (loc_w s2, loc_y s2)"
    using ttest_locals_ReturnsD(1) [OF s1(1)] ttest_locals_ReturnsD(1) [OF s2(1)] by simp
  then have wy: "loc_w s1 = loc_w s2" "loc_y s1 = loc_y s2" by simp_all
  have L: "loc_LABELS s1 = loc_LABELS s2"
    using ttest_locals_ReturnsD(2,4) [OF s1(1)] ttest_locals_ReturnsD(2,4) [OF s2(1)] wy by simp
  have "Returns (loc_T s1) = Returns (loc_T s2)"
    using ttest_locals_ReturnsD(5) [OF s1(1)] ttest_locals_ReturnsD(5) [OF s2(1)] wy L by simp
  then have T: "loc_T s1 = loc_T s2" by simp
  have q: "100 * (1 - alpha2) \<le> 100 * (1 - alpha1)" using assms(3) by simp
  from np_percentile_mono [OF ttest_locals_ReturnsD(6) [OF s2(1)]
      ttest_locals_ReturnsD(6) [OF s1(1), unfolded T] q]
  show ?thesis by (simp add: s1(2) s2(2))
qed

lemma example_tCrit_half: "np_percentile [3, - (1 / 3), 1 / 2, - 2] (100 * (1 - 1 / 2)) = Returns (1 / 12)"
  by (simp add: np_percentile_def linear_interp_def)

lemma example_M_half:
  "secondary_pdf 2 [[1, 2], [3, 4]] [[0, 0], [0, 1], [1, 0], [1, 1]] (1 / 12)
     = Returns [29 / 12, 1 / 3, 1 / 3, 29 / 12]"
  by (simp add: secondary_pdf_def permuted_tstat_def sign_permute_def signs_of_def tstat_pairs
      bind_outcome_def max_cluster_integral_def ndimage_label_def cluster_integrals_def
      cluster_integral_def masked_def py_max_def np_trapz_def)

lemma example_p_half: "p_values [29 / 12, 1 / 3, 1 / 3, 29 / 12] [2, 3] (1 / 12) = PList [1 / 4]"
  by (simp add: p_values_def ndimage_label_def cluster_integrals_def cluster_integral_def
      masked_def frac_greater_def np_trapz_def)

lemma example_ttest_half:
  "ttest_nonparametric example_x [0, 0] (1 / 2) = Returns ([2, 3], 1 / 12, PList [1 / 4])"
proof -
  have n: "length [[1, 2], [3, 4::real]] = 2" by simp
  have M: "secondary_pdf 2 [[1, 2], [3, 4]] (product01 (length [[1, 2], [3, 4::real]])) (1 / 12)
     = Returns [29 / 12, 1 / 3, 1 / 3, 29 / 12]"
    unfolding n product01_2 by (rule example_M_half)
  have T: "primary_pdf 2 [[1, 2], [3, 4]] (product01 (length [[1, 2], [3, 4::real]]))
     = Returns [3, - (1 / 3), 1 / 2, - 2]"
    unfolding n product01_2 by (rule example_T)
  show ?thesis
    unfolding ttest_nonparametric_def
      ttest_locals_ReturnsI [OF example_y example_t0 T example_tCrit_half M]
    by (simp add: bind_outcome_def example_p_half)
qed

theorem threshold_antimono_in_alpha_witness:
  "ttest_nonparametric example_x [0, 0] (1 / 20) = Returns ([2, 3], 21 / 8, PList [1 / 4])
   \<and> ttest_nonparametric example_x [0, 0] (1 / 2) = Returns ([2, 3], 1 / 12, PList [1 / 4])
   \<and> (1 / 20 :: real) \<le> 1 / 2 \<and> (1 / 12 :: real) \<le> 21 / 8"
proof -
  have le: "(1 / 20 :: real) \<le> 1 / 2" by simp
  from threshold_antimono_in_alpha [OF example_ttest example_ttest_half le]
  show ?thesis using example_ttest example_ttest_half by simp
qed

section \<open>Symmetry of the relabelings\<close>

text \<open>Flipping every label negates the permuted statistic field.\<close>

lemma tstat_at_uminus: "tstat_at (map uminus c) = map_option uminus (tstat_at c)"
proof (cases "length c < 2")
  case True
  then show ?thesis by (simp add: tstat_at_short)
next
  case False
  then have ne: "c \<noteq> []" by auto
  have sum: "sum_list (map uminus c) = - sum_list c"
    by (induction c) simp_all
  have mn: "np_mean (map uminus c) = Some (- (sum_list c / real (length c)))"
    using ne by (simp add: np_mean_def sum)
  have mn0: "np_mean c = Some (sum_list c / real (length c))" using ne by (simp add: np_mean_def)
  have dev: "sum_list (map (\<lambda>v. (v - - m) * (v - - m)) (map uminus c))
      = sum_list (map (\<lambda>v. (v - m) * (v - m)) c)" for m :: real
    by (induction c) (simp_all add: algebra_simps)
  have sd: "np_std_ddof1 (map uminus c) = np_std_ddof1 c"
    by (simp only: np_std_ddof1_def mn mn0 option.case length_map dev)
  show ?thesis
    by (cases "np_std_ddof1 c") (simp_all add: tstat_at_def mn mn0 sd)
qed

lemma signs_of_flip: "signs_of (map (\<lambda>b. 1 - b) l) = map uminus (signs_of l)"
  by (simp add: signs_of_def)

lemma column_sign_permute:
  assumes "\<forall>row \<in> set y. j < length row"
  shows "column (sign_permute y sg) j = map2 (\<lambda>row s. row ! j * real_of_int s) y sg"
  using assms
proof (induction y arbitrary: sg)
  case Nil
  then show ?case by (simp add: column_def sign_permute_def)
next
  case (Cons r rs)
  show ?case
  proof (cases sg)
    case Nil
    then show ?thesis by (simp add: column_def sign_permute_def)
  next
    case (Cons a as)
    have "column (sign_permute rs as) j = map2 (\<lambda>row s. row ! j * real_of_int s) rs as"
      using Cons.IH Cons.prems by simp
    then show ?thesis using Cons.prems Cons by (simp add: column_def sign_permute_def)
  qed
qed

lemma column_sign_permute_uminus:
  assumes "\<forall>row \<in> set y. j < length row"
  shows "column (sign_permute y (map uminus sg)) j = map uminus (column (sign_permute y sg) j)"
proof -
  have "map2 (\<lambda>row s. row ! j * real_of_int s) y (map uminus sg)
      = map uminus (map2 (\<lambda>row s. row ! j * real_of_int s) y sg)"
    by (induction y sg rule: list_induct2') simp_all
  then show ?thesis by (simp add: column_sign_permute [OF assms])
qed

lemma those_map_option: "those (map (map_option f) xs) = map_option (map f) (those xs)"
proof (induction xs)
  case Nil
  then show ?case by simp
next
  case (Cons a as)
  then show ?case by (cases a; cases "those as") simp_all
qed

lemma permuted_tstat_flip:
  assumes rows: "\<forall>row \<in> set y. length row = w"
    and t: "permuted_tstat w y l = Returns t"
  shows "permuted_tstat w y (map (\<lambda>b. 1 - b) l) = Returns (map uminus t)"
proof -
  have col: "tstat_at (column (sign_permute y (map uminus (signs_of l))) j)
      = map_option uminus (tstat_at (column (sign_permute y (signs_of l)) j))" if "j < w" for j
  proof -
    have "\<forall>row \<in> set y. j < length row" using rows that by simp
    then show ?thesis by (simp add: column_sign_permute_uminus tstat_at_uminus)
  qed
  have e: "map (\<lambda>j. tstat_at (column (sign_permute y (map uminus (signs_of l))) j)) [0..<w]
      = map (map_option uminus) (map (\<lambda>j. tstat_at (column (sign_permute y (signs_of l)) j)) [0..<w])"
    using col by simp
  from t have th: "those (map (\<lambda>j. tstat_at (column (sign_permute y (signs_of l)) j)) [0..<w]) = Some t"
    by (auto simp: permuted_tstat_def tstat_def split: option.splits)
  have "those (map (\<lambda>j. tstat_at (column (sign_permute y (map uminus (signs_of l))) j)) [0..<w])
      = Some (map uminus t)"
    unfolding e those_map_option th by simp
  then show ?thesis
    unfolding permuted_tstat_def tstat_def signs_of_flip by simp
qed

lemma rev_product01: "rev (product01 n) = map (map (\<lambda>b. 1 - b)) (product01 n)"
proof (induction n)
  case 0
  then show ?case by simp
next
  case (Suc n)
  have "rev (product01 (Suc n)) = concat (map (\<lambda>p. [p @ [1], p @ [0]]) (rev (product01 n)))"
    by (simp add: rev_concat rev_map comp_def)
  also have "\<dots> = concat (map (\<lambda>p. [p @ [1], p @ [0]]) (map (map (\<lambda>b. 1 - b)) (product01 n)))"
    by (simp only: Suc.IH)
  also have "\<dots> = concat (map (\<lambda>p. map (map (\<lambda>b. 1 - b)) [p @ [0], p @ [1]]) (product01 n))"
    by (simp add: comp_def)
  also have "\<dots> = map (map (\<lambda>b. 1 - b)) (product01 (Suc n))"
    by (simp add: map_concat comp_def)
  finally show ?case .
qed

lemma product01_mirror:
  assumes "k < 2 ^ n"
  shows "product01 n ! (2 ^ n - 1 - k) = map (\<lambda>b. 1 - b) (product01 n ! k)"
proof -
  have len: "length (product01 n) = 2 ^ n" by (rule length_product01)
  have "rev (product01 n) ! k = product01 n ! (length (product01 n) - Suc k)"
    using assms by (intro rev_nth) (simp add: len)
  moreover have "rev (product01 n) ! k = map (\<lambda>b. 1 - b) (product01 n ! k)"
    using assms by (simp add: rev_product01 len)
  ultimately show ?thesis by (simp add: len)
qed

lemma broadcast_sub_rows:
  assumes "broadcast_sub (length x) (np_transpose x) mu = Returns (w, y)"
  shows "\<forall>row \<in> set y. length row = w"
proof -
  have r: "\<forall>row \<in> set (np_transpose x). length row = length x"
    by (auto simp: np_transpose_def)
  from assms show ?thesis
    using r by (auto simp: broadcast_sub_def split: if_splits)
qed

text \<open>
  Mirrored positions of the primary distribution belong to opposite relabelings, so their
  sum is the maximum minus the minimum of one field.
\<close>

lemma primary_pdf_mirror:
  assumes rows: "\<forall>row \<in> set y. length row = w"
    and T: "primary_pdf w y (product01 n) = Returns T"
    and k: "k < 2 ^ n"
  shows "0 \<le> T ! k + T ! (2 ^ n - 1 - k)"
proof -
  have len: "length (product01 n) = 2 ^ n" by (rule length_product01)
  have k': "2 ^ n - 1 - k < length (product01 n)" using k by (simp add: len)
  from primary_pdf_nth [OF T] k len obtain t
    where t: "permuted_tstat w y (product01 n ! k) = Returns t" and m: "np_max t = Returns (T ! k)"
    by auto
  from primary_pdf_nth [OF T k'] obtain t'
    where t': "permuted_tstat w y (product01 n ! (2 ^ n - 1 - k)) = Returns t'"
      and m': "np_max t' = Returns (T ! (2 ^ n - 1 - k))"
    by auto
  from t' have "permuted_tstat w y (map (\<lambda>b. 1 - b) (product01 n ! k)) = Returns t'"
    by (simp only: product01_mirror [OF k])
  with permuted_tstat_flip [OF rows t] have "Returns t' = Returns (map uminus t)" by (simp only:)
  then have "t' = map uminus t" by simp
  with np_max_Returns [OF m'] have M': "T ! (2 ^ n - 1 - k) = Max (set (map uminus t))" by simp
  from np_max_Returns [OF m] have ne: "t \<noteq> []" and M: "T ! k = Max (set t)" by simp_all
  then obtain v where v: "v \<in> set t" by (cases t) auto
  have "v \<le> Max (set t)" using v by simp
  moreover have "- v \<le> Max (set (map uminus t))" using v by (intro Max_ge) simp_all
  ultimately show ?thesis unfolding M M' by linarith
qed

section \<open>The critical threshold\<close>

lemma length_filter_sort: "length (filter P (sort xs)) = length (filter P xs)"
proof -
  have "mset (filter P (sort xs)) = mset (filter P xs)" by simp
  then show ?thesis by (rule mset_eq_length)
qed

lemma sorted_count_le:
  assumes "sorted s" and "i < length s" and "s ! i \<le> c"
  shows "i + 1 \<le> length (filter (\<lambda>v. v \<le> c) s)"
proof -
  have all: "\<forall>v \<in> set (take (i + 1) s). v \<le> c"
  proof
    fix v assume "v \<in> set (take (i + 1) s)"
    then obtain j where j: "j < i + 1" "j < length s" "v = s ! j"
      by (auto simp: in_set_conv_nth)
    then have "s ! j \<le> s ! i" using assms(1,2) by (intro sorted_nth_mono) simp_all
    with j(3) assms(3) show "v \<le> c" by simp
  qed
  have "filter (\<lambda>v. v \<le> c) s
      = filter (\<lambda>v. v \<le> c) (take (i + 1) s) @ filter (\<lambda>v. v \<le> c) (drop (i + 1) s)"
    by (simp only: filter_append [symmetric] append_take_drop_id)
  also have "filter (\<lambda>v. v \<le> c) (take (i + 1) s) = take (i + 1) s"
    using all by (simp only: filter_True)
  finally have "length (filter (\<lambda>v. v \<le> c) s)
      = length (take (i + 1) s) + length (filter (\<lambda>v. v \<le> c) (drop (i + 1) s))"
    by simp
  moreover have "length (take (i + 1) s) = i + 1" using assms(2) by simp
  ultimately show ?thesis by linarith
qed

lemma length_filter_pointwise:
  "length xs = length ys \<Longrightarrow> (\<And>k. k < length xs \<Longrightarrow> P (xs ! k) \<Longrightarrow> Q (ys ! k)) \<Longrightarrow>
     length (filter P xs) \<le> length (filter Q ys)"
proof (induction xs ys rule: list_induct2)
  case Nil
  then show ?case by simp
next
  case (Cons a as b bs)
  have tl: "length (filter P as) \<le> length (filter Q bs)"
  proof (rule Cons.IH)
    fix k assume "k < length as" "P (as ! k)"
    then show "Q (bs ! k)" using Cons.prems [of "Suc k"] by simp
  qed
  have hd: "P a \<Longrightarrow> Q b" using Cons.prems [of 0] by simp
  show ?case using tl hd by auto
qed

text \<open>
  If mirrored positions of a list have non-negative sums, so have mirrored positions of the
  sorted list.
\<close>

lemma sorted_mirror_nonneg:
  fixes T :: "real list"
  assumes pair: "\<And>k. k < length T \<Longrightarrow> 0 \<le> T ! k + T ! (length T - 1 - k)"
    and i: "i < length T"
  shows "0 \<le> sort T ! i + sort T ! (length T - 1 - i)"
proof (rule ccontr)
  define s where "s = sort T"
  define N where "N = length T"
  define a where "a = s ! i"
  define b where "b = s ! (N - 1 - i)"
  assume "\<not> 0 \<le> sort T ! i + sort T ! (length T - 1 - i)"
  then have neg: "a + b < 0" by (simp add: a_def b_def s_def N_def)
  have ss: "sorted s" and ls: "length s = N" by (simp_all add: s_def N_def)
  have iN: "i < N" using i by (simp add: N_def)
  have "i + 1 \<le> length (filter (\<lambda>v. v \<le> a) s)"
    using ss by (rule sorted_count_le) (simp_all add: ls iN a_def)
  then have cnt_a: "i + 1 \<le> length (filter (\<lambda>v. v \<le> a) T)"
    by (simp add: s_def length_filter_sort)
  have "(N - 1 - i) + 1 \<le> length (filter (\<lambda>v. v \<le> b) s)"
    using ss by (rule sorted_count_le) (use iN in \<open>simp_all add: ls b_def\<close>)
  then have cnt_b: "N - i \<le> length (filter (\<lambda>v. v \<le> b) T)"
    using iN by (simp add: s_def length_filter_sort)
  have "length (filter (\<lambda>v. v \<le> b) T) + length (filter (\<lambda>v. \<not> v \<le> b) T) = N"
    unfolding N_def by (rule sum_length_filter_compl)
  with cnt_b iN have gt_b: "length (filter (\<lambda>v. \<not> v \<le> b) T) \<le> i" by linarith
  have "length (filter (\<lambda>v. v \<le> a) T) \<le> length (filter (\<lambda>v. \<not> v \<le> b) (rev T))"
  proof (rule length_filter_pointwise)
    show "length T = length (rev T)" by simp
  next
    fix k assume k: "k < length T" and le: "T ! k \<le> a"
    have "rev T ! k = T ! (length T - 1 - k)" using k by (simp add: rev_nth)
    moreover have "0 \<le> T ! k + T ! (length T - 1 - k)" using k by (rule pair)
    ultimately show "\<not> rev T ! k \<le> b" using le neg by linarith
  qed
  also have "\<dots> = length (filter (\<lambda>v. \<not> v \<le> b) T)"
    by (simp only: rev_filter [symmetric] length_rev)
  finally show False using cnt_a gt_b by linarith
qed

lemma linear_interp_upper_half_nonneg:
  assumes s: "sorted s" and ne: "s \<noteq> []"
    and mirror: "\<And>i. i < length s \<Longrightarrow> 0 \<le> s ! i + s ! (length s - 1 - i)"
    and half: "real (length s - 1) / 2 \<le> h" and hN: "h \<le> real (length s - 1)"
  shows "0 \<le> linear_interp s h"
proof -
  define N where "N = length s"
  define lo where "lo = nat \<lfloor>h\<rfloor>"
  define hi where "hi = min (lo + 1) (N - 1)"
  define w where "w = h - real lo"
  have "0 \<le> real (length s - 1) / 2" by simp
  with half have h0: "0 \<le> h" by linarith
  note f = linear_interp_facts [OF s ne h0 hN]
  have Npos: "0 < N" using ne by (simp add: N_def)
  have "lo \<le> N - 1" using f(1) by (simp add: lo_def N_def)
  then have loN: "lo < N" using Npos by linarith
  show ?thesis
  proof (cases "0 \<le> s ! lo")
    case True
    with f(2) show ?thesis by (simp add: lo_def)
  next
    case False
    then have neg: "s ! lo < 0" by simp
    have m: "0 \<le> s ! lo + s ! (N - 1 - lo)" using mirror [of lo] loN by (simp add: N_def)
    have "lo < N - 1 - lo"
    proof (rule ccontr)
      assume "\<not> lo < N - 1 - lo"
      then have "N - 1 - lo \<le> lo" by simp
      then have "s ! (N - 1 - lo) \<le> s ! lo" using s loN by (intro sorted_nth_mono) (simp_all add: N_def)
      with m neg show False by linarith
    qed
    then have two_lo: "2 * lo + 2 \<le> N" by linarith
    have lo_le_h: "real lo \<le> h" using h0 by (simp add: lo_def)
    have h_lt: "h < real lo + 1" using h0 unfolding lo_def by linarith
    have "real (N - 1) / 2 < real lo + 1" using half h_lt by (simp add: N_def)
    then have "real (N - 1) < 2 * real lo + 2" by simp
    then have "N - 1 < 2 * lo + 2" by linarith
    with two_lo have N_eq: "N = 2 * lo + 2" by linarith
    have hi_eq: "hi = lo + 1" by (simp add: hi_def N_eq)
    have mir_eq: "N - 1 - lo = lo + 1" by (simp add: N_eq)
    have w_half: "1 / 2 \<le> w"
    proof -
      have "real (N - 1) / 2 = real lo + 1 / 2" by (simp add: N_eq)
      with half show ?thesis by (simp add: w_def N_def)
    qed
    have w1: "w < 1" using h_lt by (simp add: w_def)
    have eq: "linear_interp s h = s ! lo * (1 - w) + s ! (lo + 1) * w"
      using hi_eq by (simp add: linear_interp_def Let_def lo_def hi_def w_def N_def)
    have "0 \<le> s ! lo + s ! (lo + 1)" using m by (simp only: mir_eq)
    then have up: "- (s ! lo) \<le> s ! (lo + 1)" by linarith
    have "- (s ! lo) * w \<le> s ! (lo + 1) * w"
      using up w_half by (intro mult_right_mono) simp_all
    then have "s ! lo * (1 - w) + (- (s ! lo)) * w \<le> linear_interp s h" unfolding eq by linarith
    moreover have "s ! lo * (1 - w) + (- (s ! lo)) * w = (- (s ! lo)) * (2 * w - 1)"
      by (simp add: algebra_simps)
    moreover have "0 \<le> (- (s ! lo)) * (2 * w - 1)" using neg w_half by (intro mult_nonneg_nonneg) simp_all
    ultimately show ?thesis by linarith
  qed
qed

lemma example_tCrit_high: "np_percentile [3, - (1 / 3), 1 / 2, - 2] (100 * (1 - 9 / 10)) = Returns (- (3 / 2))"
  by (simp add: np_percentile_def linear_interp_def)

lemma example_M_high:
  "secondary_pdf 2 [[1, 2], [3, 4]] [[0, 0], [0, 1], [1, 0], [1, 1]] (- (3 / 2))
     = Returns [4, 23 / 12, 23 / 12, 4]"
  by (simp add: secondary_pdf_def permuted_tstat_def sign_permute_def signs_of_def tstat_pairs
      bind_outcome_def max_cluster_integral_def ndimage_label_def cluster_integrals_def
      cluster_integral_def masked_def py_max_def np_trapz_def)

lemma example_p_high: "p_values [4, 23 / 12, 23 / 12, 4] [2, 3] (- (3 / 2)) = PList [1 / 4]"
  by (simp add: p_values_def ndimage_label_def cluster_integrals_def cluster_integral_def
      masked_def frac_greater_def np_trapz_def)

lemma example_ttest_high:
  "ttest_nonparametric example_x [0, 0] (9 / 10) = Returns ([2, 3], - (3 / 2), PList [1 / 4])"
proof -
  have n: "length [[1, 2], [3, 4::real]] = 2" by simp
  have M: "secondary_pdf 2 [[1, 2], [3, 4]] (product01 (length [[1, 2], [3, 4::real]])) (- (3 / 2))
     = Returns [4, 23 / 12, 23 / 12, 4]"
    unfolding n product01_2 by (rule example_M_high)
  have T: "primary_pdf 2 [[1, 2], [3, 4]] (product01 (length [[1, 2], [3, 4::real]]))
     = Returns [3, - (1 / 3), 1 / 2, - 2]"
    unfolding n product01_2 by (rule example_T)
  show ?thesis
    unfolding ttest_nonparametric_def
      ttest_locals_ReturnsI [OF example_y example_t0 T example_tCrit_high M]
    by (simp add: bind_outcome_def example_p_high)
qed

text \<open>
  C8, as stated, fails on both counts. With \<^verbatim>\<open>alpha = 0.9\<close> the worked example's threshold
  is \<open>-1.5\<close>. With \<^verbatim>\<open>alpha = 0.05\<close> its threshold is \<open>2.625\<close> and only 3 of the 4 members
  of the primary distribution \<open>[3, -1/3, 1/2, -2]\<close> are at most that, fewer than
  \<open>ceil(0.95 * 4) = 4\<close>.
\<close>

theorem threshold_claim_fails:
  "ttest_nonparametric example_x [0, 0] (9 / 10) = Returns ([2, 3], - (3 / 2), PList [1 / 4])
   \<and> - (3 / 2) < (0 :: real)
   \<and> ttest_locals example_x [0, 0] (1 / 20) = Returns example_locals
   \<and> length (filter (\<lambda>v. v \<le> loc_tCrit example_locals) (loc_T example_locals)) = 3
   \<and> nat \<lceil>(1 - 1 / 20) * 2 ^ ncols example_x :: real\<rceil> = 4"
proof -
  have "nat \<lceil>(1 - 1 / 20) * 2 ^ ncols example_x :: real\<rceil> = 4"
    by (simp add: ncols_def example_x_def)
  moreover have "length (filter (\<lambda>v. v \<le> loc_tCrit example_locals) (loc_T example_locals)) = 3"
    by (simp add: example_locals_def)
  ultimately show ?thesis using example_ttest_high example_ttest_locals by simp
qed

text \<open>
  C8, amended. Take a run in which every statistic is finite: at least two observations
  and no zero standard deviation at any position under any relabeling (these are the runs
  with outcome \<open>Returns\<close>; a run in which a division by zero makes a statistic nan or inf is
  \<open>NonFinite\<close> and is not covered, although the code goes on and returns there too). In such
  a run, if \<^verbatim>\<open>alpha\<close> is at most 1/2 the critical threshold is non-negative; and for every
  \<^verbatim>\<open>alpha\<close>, at least \<open>floor((1-alpha) * (2^n - 1)) + 1\<close> of the \<open>2 ^ n\<close> members of the
  primary distribution are at most the threshold.
\<close>

theorem threshold_bounds:
  assumes "ttest_locals x mu alpha = Returns s"
  shows "(alpha \<le> 1 / 2 \<longrightarrow> 0 \<le> loc_tCrit s)
    \<and> nat \<lfloor>(1 - alpha) * (2 ^ ncols x - 1)\<rfloor> + 1
        \<le> length (filter (\<lambda>v. v \<le> loc_tCrit s) (loc_T s))"
proof -
  define T where "T = loc_T s"
  define n where "n = ncols x"
  define h where "h = (1 - alpha) * (2 ^ n - 1)"
  have n: "loc_n s = n" unfolding n_def using assms by (rule loc_n_ncols)
  have L: "loc_LABELS s = product01 n" using ttest_locals_ReturnsD(4) [OF assms] n by simp
  have prim: "primary_pdf (loc_w s) (loc_y s) (product01 n) = Returns T"
    using ttest_locals_ReturnsD(5) [OF assms] L by (simp add: T_def)
  have lenT: "length T = 2 ^ n" using length_primary_pdf [OF prim] by (simp add: length_product01)
  have rows: "\<forall>row \<in> set (loc_y s). length row = loc_w s"
    using ttest_locals_ReturnsD(1) [OF assms] by (rule broadcast_sub_rows)
  note pc = np_percentile_Returns [OF ttest_locals_ReturnsD(6) [OF assms]]
  have real_len: "real (length T - 1) = 2 ^ n - 1"
    by (simp add: lenT of_nat_diff)
  have "100 * (1 - alpha) / 100 = 1 - alpha" by simp
  then have idx: "100 * (1 - alpha) / 100 * real (length T - 1) = h"
    by (simp only: real_len h_def)
  have c: "loc_tCrit s = linear_interp (sort T) h"
    using pc(4) unfolding T_def [symmetric] idx .
  have ss: "sorted (sort T)" by simp
  have sne: "sort T \<noteq> []" using lenT by (metis length_sort length_0_conv power_not_zero zero_neq_numeral)
  have h0: "0 \<le> h" using np_percentile_index_range(1) [OF pc(1,2), of "length T - 1"] unfolding idx .
  have hN: "h \<le> real (length (sort T) - 1)"
    using np_percentile_index_range(2) [OF pc(1,2), of "length T - 1"] unfolding idx by simp
  note f = linear_interp_facts [OF ss sne h0 hN]
  have count: "nat \<lfloor>h\<rfloor> + 1 \<le> length (filter (\<lambda>v. v \<le> loc_tCrit s) T)"
  proof -
    have "nat \<lfloor>h\<rfloor> < length (sort T)" using f(1) sne by (cases "sort T") simp_all
    then have "nat \<lfloor>h\<rfloor> + 1 \<le> length (filter (\<lambda>v. v \<le> loc_tCrit s) (sort T))"
      using ss f(2) unfolding c by (intro sorted_count_le)
    then show ?thesis by (simp only: length_filter_sort)
  qed
  have nonneg: "0 \<le> loc_tCrit s" if a: "alpha \<le> 1 / 2"
  proof -
    have pair: "0 \<le> T ! k + T ! (length T - 1 - k)" if "k < length T" for k
      using primary_pdf_mirror [OF rows prim, of k] that by (simp add: lenT)
    have mirror: "0 \<le> sort T ! i + sort T ! (length (sort T) - 1 - i)" if "i < length (sort T)" for i
      using sorted_mirror_nonneg [of T i] pair that by simp
    have "(2 ^ n - 1) / 2 \<le> (1 - alpha) * (2 ^ n - 1 :: real)"
    proof -
      have "(0::real) \<le> 2 ^ n - 1" by simp
      moreover have "1 / 2 \<le> 1 - alpha" using a by simp
      ultimately have "1 / 2 * (2 ^ n - 1) \<le> (1 - alpha) * (2 ^ n - 1 :: real)"
        by (intro mult_right_mono)
      then show ?thesis by simp
    qed
    moreover have "real (length (sort T) - 1) = 2 ^ n - 1"
      using real_len by (simp only: length_sort)
    ultimately have half: "real (length (sort T) - 1) / 2 \<le> h"
      by (simp only: h_def)
    show ?thesis unfolding c
      by (rule linear_interp_upper_half_nonneg [OF ss sne mirror half hN])
  qed
  show ?thesis using count nonneg unfolding T_def h_def n_def by blast
qed

theorem threshold_bounds_witness:
  "ttest_locals example_x [0, 0] (1 / 20) = Returns example_locals \<and> (1 / 20 :: real) \<le> 1 / 2
   \<and> 0 \<le> loc_tCrit example_locals
   \<and> nat \<lfloor>(1 - 1 / 20) * (2 ^ ncols example_x - 1) :: real\<rfloor> + 1 = 3
   \<and> 3 \<le> length (filter (\<lambda>v. v \<le> loc_tCrit example_locals) (loc_T example_locals))"
proof -
  have a: "(1 / 20 :: real) \<le> 1 / 2" by simp
  have fl: "nat \<lfloor>(1 - 1 / 20) * (2 ^ ncols example_x - 1) :: real\<rfloor> + 1 = 3"
    by (simp add: ncols_def example_x_def)
  from threshold_bounds [OF example_ttest_locals] a
  have "0 \<le> loc_tCrit example_locals
    \<and> nat \<lfloor>(1 - 1 / 20) * (2 ^ ncols example_x - 1) :: real\<rfloor> + 1
        \<le> length (filter (\<lambda>v. v \<le> loc_tCrit example_locals) (loc_T example_locals))"
    by blast
  then show ?thesis using example_ttest_locals a fl by simp
qed

section \<open>When the test returns\<close>

text \<open>
  The statistic at one position is finite exactly when there are at least two observations
  and they are not all equal.
\<close>

lemma sum_sq_dev_zero_iff:
  "(\<Sum>v\<leftarrow>c. (v - m) * (v - m)) = 0 \<longleftrightarrow> (\<forall>v \<in> set c. v = (m::real))"
proof -
  have "(\<Sum>v\<leftarrow>c. (v - m) * (v - m)) = 0 \<longleftrightarrow> (\<forall>d \<in> set (map (\<lambda>v. (v - m) * (v - m)) c). d = 0)"
    by (rule sum_list_nonneg_eq_0_iff) auto
  then show ?thesis by auto
qed

lemma all_equal_mean:
  assumes "c \<noteq> []"
  shows "(\<forall>v \<in> set c. v = sum_list c / real (length c)) \<longleftrightarrow> (\<forall>u \<in> set c. \<forall>v \<in> set c. u = v)"
proof
  assume a: "\<forall>v \<in> set c. v = sum_list c / real (length c)"
  show "\<forall>u \<in> set c. \<forall>v \<in> set c. u = v"
  proof (intro ballI)
    fix u v assume "u \<in> set c" "v \<in> set c"
    with a have "u = sum_list c / real (length c)" "v = sum_list c / real (length c)" by blast+
    then show "u = v" by (simp only:)
  qed
next
  assume eq: "\<forall>u \<in> set c. \<forall>v \<in> set c. u = v"
  from assms obtain a where a: "a \<in> set c" by (cases c) auto
  with eq have "\<forall>v \<in> set c. v = a" by blast
  then have "c = replicate (length c) a" by (simp add: replicate_length_same)
  then have "sum_list c = real (length c) * a" by (metis sum_list_replicate)
  then have "sum_list c / real (length c) = a" using assms by simp
  with \<open>\<forall>v \<in> set c. v = a\<close> show "\<forall>v \<in> set c. v = sum_list c / real (length c)" by simp
qed

lemma tstat_at_Some_iff:
  "(\<exists>t. tstat_at c = Some t) \<longleftrightarrow> 2 \<le> length c \<and> (\<exists>u \<in> set c. \<exists>v \<in> set c. u \<noteq> v)"
proof (cases "length c < 2")
  case True
  then show ?thesis by (simp add: tstat_at_short)
next
  case False
  then have ne: "c \<noteq> []" by auto
  define m where "m = sum_list c / real (length c)"
  have mn: "np_mean c = Some m" using ne by (simp add: np_mean_def m_def)
  have sd: "np_std_ddof1 c = Some (sqrt ((\<Sum>v\<leftarrow>c. (v - m) * (v - m)) / real (length c - 1)))"
    using False by (simp add: np_std_ddof1_def mn)
  have pos: "0 < real (length c - 1)" using False by simp
  have "sqrt ((\<Sum>v\<leftarrow>c. (v - m) * (v - m)) / real (length c - 1)) = 0
      \<longleftrightarrow> (\<Sum>v\<leftarrow>c. (v - m) * (v - m)) = 0"
    using pos by simp
  also have "\<dots> \<longleftrightarrow> (\<forall>u \<in> set c. \<forall>v \<in> set c. u = v)"
    unfolding sum_sq_dev_zero_iff m_def by (rule all_equal_mean [OF ne])
  finally have "(\<exists>t. tstat_at c = Some t) \<longleftrightarrow> \<not> (\<forall>u \<in> set c. \<forall>v \<in> set c. u = v)"
    by (simp add: tstat_at_def mn sd)
  then show ?thesis using False by auto
qed

lemma those_Some_iff: "(\<exists>ys. those xs = Some ys) \<longleftrightarrow> None \<notin> set xs"
  by (induction xs) (auto split: option.splits)

lemma tstat_Returns_iff:
  "(\<exists>t. tstat w y = Returns t) \<longleftrightarrow> (\<forall>j < w. \<exists>t. tstat_at (column y j) = Some t)"
proof -
  have "(\<exists>t. tstat w y = Returns t) \<longleftrightarrow> (\<exists>t. those (map (\<lambda>j. tstat_at (column y j)) [0..<w]) = Some t)"
    by (auto simp: tstat_def split: option.splits)
  also have "\<dots> \<longleftrightarrow> None \<notin> set (map (\<lambda>j. tstat_at (column y j)) [0..<w])"
    by (rule those_Some_iff)
  also have "\<dots> \<longleftrightarrow> (\<forall>j < w. tstat_at (column y j) \<noteq> None)"
  proof
    assume a: "None \<notin> set (map (\<lambda>j. tstat_at (column y j)) [0..<w])"
    show "\<forall>j < w. tstat_at (column y j) \<noteq> None"
    proof (intro allI impI)
      fix j assume "j < w"
      then have "tstat_at (column y j) \<in> set (map (\<lambda>j. tstat_at (column y j)) [0..<w])" by simp
      with a show "tstat_at (column y j) \<noteq> None" by metis
    qed
  next
    assume "\<forall>j < w. tstat_at (column y j) \<noteq> None"
    then show "None \<notin> set (map (\<lambda>j. tstat_at (column y j)) [0..<w])" by auto
  qed
  also have "\<dots> \<longleftrightarrow> (\<forall>j < w. \<exists>t. tstat_at (column y j) = Some t)"
    by simp
  finally show ?thesis .
qed

lemma sign_permute_identity:
  "sign_permute y (signs_of (replicate (length y) 0)) = y"
proof -
  have "map2 (\<lambda>row s. map (\<lambda>v. v * real_of_int s) row) y (replicate (length y) 1) = y"
    by (induction y) simp_all
  then show ?thesis by (simp add: sign_permute_def signs_of_zero)
qed

text \<open>
  With at least one domain position, \<open>n \<ge> 2\<close> observations, a datum of matching length, a
  valid \<^verbatim>\<open>alpha\<close> and no relabeling under which the datum-corrected observations at some
  position all coincide, \<^verbatim>\<open>ttest_nonparametric\<close> returns.
\<close>

lemma ttest_nonparametric_returns:
  assumes ne: "x \<noteq> []" and rect: "\<forall>r \<in> set x. length r = n" and n2: "2 \<le> n"
    and mu: "length mu = length x"
    and alpha: "0 \<le> alpha" "alpha \<le> 1"
    and spread: "\<forall>labels \<in> set (product01 n). \<forall>j < length x.
        \<exists>u \<in> set (column (sign_permute (map (\<lambda>row. map2 (-) row mu) (np_transpose x)) (signs_of labels)) j).
        \<exists>v \<in> set (column (sign_permute (map (\<lambda>row. map2 (-) row mu) (np_transpose x)) (signs_of labels)) j).
          u \<noteq> v"
  shows "\<exists>t0 tCrit p. ttest_nonparametric x mu alpha = Returns (t0, tCrit, p)"
proof -
  define y where "y = map (\<lambda>row. map2 (-) row mu) (np_transpose x)"
  define w where "w = length x"
  have w0: "0 < w" using ne by (simp add: w_def)
  have bs: "broadcast_sub (length x) (np_transpose x) mu = Returns (w, y)"
    using mu by (simp add: broadcast_sub_def y_def w_def)
  have leny: "length y = n"
    using ncols_rect [OF ne rect] by (simp add: y_def length_np_transpose)
  have perm: "\<exists>t. permuted_tstat w y labels = Returns t \<and> t \<noteq> []"
    if l: "labels \<in> set (product01 n)" for labels
  proof -
    have lenl: "length labels = n" using l by (simp add: set_product01)
    have "\<exists>t. tstat_at (column (sign_permute y (signs_of labels)) j) = Some t" if j: "j < w" for j
    proof -
      have "length (column (sign_permute y (signs_of labels)) j) = n"
        by (simp add: column_def sign_permute_def signs_of_def leny lenl)
      then show ?thesis
        unfolding tstat_at_Some_iff using n2 spread l j by (simp add: y_def w_def)
    qed
    then obtain t where t: "permuted_tstat w y labels = Returns t"
      unfolding permuted_tstat_def using tstat_Returns_iff by blast
    have "length t = w" using t unfolding permuted_tstat_def by (rule tstat_nth(1))
    with w0 have "t \<noteq> []" by auto
    with t show ?thesis by blast
  qed
  have "replicate n 0 \<in> set (product01 n)" by (auto simp: set_product01)
  from perm [OF this] obtain t0 where "permuted_tstat w y (replicate n 0) = Returns t0" by blast
  then have t0: "tstat w y = Returns t0"
    using sign_permute_identity [of y] by (simp add: permuted_tstat_def leny)
  have "\<exists>T. primary_pdf w y (product01 (length y)) = Returns T"
    unfolding primary_pdf_def leny
  proof (rule for_each_total)
    fix labels assume "labels \<in> set (product01 n)"
    from perm [OF this] obtain t where t: "permuted_tstat w y labels = Returns t" "t \<noteq> []" by blast
    then obtain v where "np_max t = Returns v" by (cases t) (simp_all add: np_max_def)
    with t(1) show "\<exists>b. bind_outcome (permuted_tstat w y labels) np_max = Returns b"
      by (simp add: bind_outcome_def)
  qed
  then obtain T where T: "primary_pdf w y (product01 (length y)) = Returns T" by blast
  have "length T = 2 ^ n" using length_primary_pdf [OF T] by (simp add: length_product01 leny)
  then have Tne: "T \<noteq> []" by auto
  have "0 \<le> 100 * (1 - alpha)" "100 * (1 - alpha) \<le> 100" using alpha by simp_all
  then obtain tCrit where c: "np_percentile T (100 * (1 - alpha)) = Returns tCrit"
    using Tne by (simp add: np_percentile_def)
  from secondary_pdf_total [OF T] obtain M
    where M: "secondary_pdf w y (product01 (length y)) tCrit = Returns M" by blast
  show ?thesis
    unfolding ttest_nonparametric_def ttest_locals_ReturnsI [OF bs t0 T c M]
    by (simp add: bind_outcome_def)
qed

end
